theory Spec2Isabelle
  imports Main "HOL-Library.Sublist"
begin

section \<open>Python text formatting\<close>

text \<open>
  The builder writes integers into the document with \<^verbatim>\<open>str(n)\<close> and tags with
  \<^verbatim>\<open>"#{:04d}".format(n)\<close>. Python integers are unbounded, so they are \<open>int\<close> here.
\<close>

definition digit_char :: "nat \<Rightarrow> char" where
  "digit_char d = char_of (48 + d)"

fun str_nat :: "nat \<Rightarrow> string" where
  "str_nat n = (if n < 10 then [digit_char n] else str_nat (n div 10) @ [digit_char (n mod 10)])"

declare str_nat.simps [simp del]

definition py_str :: "int \<Rightarrow> string" where
  "py_str i = (if i < 0 then CHR ''-'' # str_nat (nat (- i)) else str_nat (nat i))"

definition zfill :: "nat \<Rightarrow> string \<Rightarrow> string" where
  "zfill k s = replicate (k - length s) CHR ''0'' @ s"

text \<open>\<^verbatim>\<open>"{:04d}".format(i)\<close>: zero padding to width four, the sign counted in the width.\<close>

definition format_04d :: "int \<Rightarrow> string" where
  "format_04d i =
     (if i < 0 then CHR ''-'' # zfill 3 (str_nat (nat (- i))) else zfill 4 (str_nat (nat i)))"

definition format_tag :: "int \<Rightarrow> string" where
  "format_tag i = CHR ''#'' # format_04d i"

text \<open>Reading a tag back as the number it was formatted from.\<close>

definition digit_val :: "char \<Rightarrow> nat" where
  "digit_val c = of_char c - 48"

definition nat_of_digits :: "string \<Rightarrow> nat" where
  "nat_of_digits s = foldl (\<lambda>a c. 10 * a + digit_val c) 0 s"

definition tag_number :: "string \<Rightarrow> int" where
  "tag_number t =
     (case t of
        [] \<Rightarrow> 0
      | _ # s \<Rightarrow> (case s of
                   [] \<Rightarrow> 0
                 | c # r \<Rightarrow> if c = CHR ''-'' then - int (nat_of_digits r)
                            else int (nat_of_digits s)))"

section \<open>The object graph\<close>

text \<open>
  Every builder class creates one \<^verbatim>\<open>hkobject\<close> element under the \<^verbatim>\<open>__data__\<close> section in
  its constructor and keeps handles to the parameters it later changes. An object of the
  model is the Python instance together with its element: the instance attributes
  (\<^verbatim>\<open>tag\<close>, \<^verbatim>\<open>nEvents\<close>, \<^verbatim>\<open>numTransitions\<close>, \<^verbatim>\<open>stateIdx\<close>, ...) and the parameters of the
  element whose text, \<^verbatim>\<open>numelements\<close> attribute or children the code computes. Parameters
  with a fixed text and the \<^verbatim>\<open>SERIALIZE_IGNORED\<close> comments hold no tag and no count and are
  left out. An address is the position of the element in the data section; the section
  only grows, so an address stays valid.
\<close>

type_synonym addr = nat

text \<open>
  A number passed as \<^verbatim>\<open>localTime\<close>: an int (a bool is one), or a float, which is a finite
  \<open>m * 2 ^ e\<close>, an infinity with its sign, or nan.
\<close>

datatype pynum = PyInt int | PyFloat int int | PyInf bool | PyNan

text \<open>One \<^verbatim>\<open>hkobject\<close> child of a \<^verbatim>\<open>transitions\<close> parameter (\<^verbatim>\<open>add_transition\<close>).\<close>

record transition =
  transition_ref :: string
  condition :: string
  eventId :: string
  toStateId :: string
  flags :: string

text \<open>One \<^verbatim>\<open>hkobject\<close> child of a \<^verbatim>\<open>triggers\<close> parameter (\<^verbatim>\<open>add_trigger\<close>).\<close>

record trigger =
  localTime :: pynum
  event_id :: string
  relativeToEndOfClip :: string

datatype hkobject =
    HkbBehaviorGraphStringData (tag: string) int string "string list"
      \<comment> \<open>tag, nEvents, eventNames numelements, eventNames children\<close>
  | HkbVariableValueSet (tag: string)
  | HkbBehaviorGraphData (tag: string) int string "string list" string string
      \<comment> \<open>tag, nEvents, eventInfos numelements, eventInfos children (flags),
          variableInitialValues, stringData\<close>
  | HkbBlendingTransitionEffect (tag: string) string
      \<comment> \<open>tag, userData\<close>
  | HkbStateMachineTransitionInfoArray (tag: string) int string "transition list"
      \<comment> \<open>tag, numTransitions, transitions numelements, transitions children\<close>
  | HkbClipGenerator (tag: string) string string string string
      \<comment> \<open>tag, name, animationName, triggers, mode\<close>
  | BGSGamebryoSequenceGenerator (tag: string) string string
      \<comment> \<open>tag, name, pSequence\<close>
  | HkbStateMachineStateInfo (tag: string) string string string string string int string
      "addr option"
      \<comment> \<open>tag, enterNotifyEvents, exitNotifyEvents, transitions, generator, name,
          stateIdx, stateId, hkbClipTriggerArray\<close>
  | HkbStateMachineEventPropertyArray (tag: string) int string "string list"
      \<comment> \<open>tag, num_elements, events numelements, events children (id)\<close>
  | HkbClipTriggerArray (tag: string) int string "trigger option list"
      \<comment> \<open>tag, num_elements, triggers numelements, triggers children\<close>
  | HkbStateMachine (tag: string) string string int string "string list" string
      \<comment> \<open>tag, name, startStateId, nStates, states numelements, the tags joined into the
          states text, wildcardTransitions\<close>
  | HkbBehaviorGraph (tag: string) string string string
      \<comment> \<open>tag, name, rootGenerator, data\<close>
  | HkRootLevelContainer (tag: string) string string string string
      \<comment> \<open>name attribute, namedVariants numelements, name, className, variant\<close>

fun class_of :: "hkobject \<Rightarrow> string" where
  "class_of (HkbBehaviorGraphStringData _ _ _ _) = ''hkbBehaviorGraphStringData''"
| "class_of (HkbVariableValueSet _) = ''hkbVariableValueSet''"
| "class_of (HkbBehaviorGraphData _ _ _ _ _ _) = ''hkbBehaviorGraphData''"
| "class_of (HkbBlendingTransitionEffect _ _) = ''hkbBlendingTransitionEffect''"
| "class_of (HkbStateMachineTransitionInfoArray _ _ _ _) = ''hkbStateMachineTransitionInfoArray''"
| "class_of (HkbClipGenerator _ _ _ _ _) = ''hkbClipGenerator''"
| "class_of (BGSGamebryoSequenceGenerator _ _ _) = ''BGSGamebryoSequenceGenerator''"
| "class_of (HkbStateMachineStateInfo _ _ _ _ _ _ _ _ _) = ''hkbStateMachineStateInfo''"
| "class_of (HkbStateMachineEventPropertyArray _ _ _ _) = ''hkbStateMachineEventPropertyArray''"
| "class_of (HkbClipTriggerArray _ _ _ _) = ''hkbClipTriggerArray''"
| "class_of (HkbStateMachine _ _ _ _ _ _ _) = ''hkbStateMachine''"
| "class_of (HkbBehaviorGraph _ _ _ _) = ''hkbBehaviorGraph''"
| "class_of (HkRootLevelContainer _ _ _ _ _) = ''hkRootLevelContainer''"

text \<open>
  The text of the \<^verbatim>\<open>states\<close> parameter of the state machine, rebuilt from the list of
  state tags at every \<^verbatim>\<open>hkbStateMachine.add_state\<close>; the parameter has no text before the
  first call.
\<close>

fun join :: "string list \<Rightarrow> string" where
  "join [] = []"
| "join [x] = x"
| "join (x # y # ys) = x @ '' '' @ join (y # ys)"

definition states_text :: "string list \<Rightarrow> string option" where
  "states_text ts =
     (if ts = [] then None
      else Some ([CHR 0x0A, CHR 0x09, CHR 0x09, CHR 0x09, CHR 0x09] @ join ts
                 @ [CHR 0x0A, CHR 0x09, CHR 0x09, CHR 0x09]))"

subsection \<open>Class-level and instance-level state\<close>

text \<open>
  \<^verbatim>\<open>BehaviorFile.data\<close>, \<^verbatim>\<open>BehaviorFile.list_of_states\<close>,
  \<^verbatim>\<open>hkbBehaviorGraphStringData.event_name_list\<close> and \<^verbatim>\<open>hkbStateMachine.list_of_states\<close> are
  class attributes holding one mutable object each; the code only ever mutates them in
  place (\<^verbatim>\<open>append\<close>, \<^verbatim>\<open>SubElement\<close>), so every instance works on the same object. They
  form the \<open>world\<close>, together with the lines written to the logger.
\<close>

type_synonym state_entry = "addr \<times> addr \<times> addr \<times> string"

record world =
  data :: "hkobject list"
  list_of_states :: "state_entry list"
  event_name_list :: "string list"
  sm_list_of_states :: "string list"
  log_lines :: "string list"

text \<open>
  The integer class attributes (\<^verbatim>\<open>object_counter\<close>, \<^verbatim>\<open>nStates\<close>) are rebound on the
  instance by \<^verbatim>\<open>+=\<close>, and the object attributes are assigned in \<^verbatim>\<open>__init__\<close> or later: these
  belong to one instance. An attribute that is \<^verbatim>\<open>None\<close> or not yet assigned is \<open>None\<close>.
\<close>

record BehaviorFile =
  object_counter :: int
  nStates :: int
  hkbBehaviorGraphStringData :: "addr option"
  hkbVariableValueSet :: "addr option"
  hkbBehaviorGraphData :: "addr option"
  blend_effect :: "addr option"
  wildcardtransitions :: "addr option"
  hkbStateMachineObj :: "addr option"
  hkbBehaviorGraphObj :: "addr option"

definition root_index :: int where
  "root_index = 51"

datatype error =
  TypeError | AssertionError | UnboundLocalError | AttributeError | OverflowError

definition init_world :: world where
  "init_world = \<lparr>data = [], list_of_states = [], event_name_list = [],
                 sm_list_of_states = [], log_lines = []\<rparr>"

definition warning :: "string \<Rightarrow> world \<Rightarrow> world" where
  "warning msg w = w\<lparr>log_lines := log_lines w @ [msg]\<rparr>"

definition OCnext :: "BehaviorFile \<Rightarrow> string \<times> BehaviorFile" where
  "OCnext bf =
     (let bf' = bf\<lparr>object_counter := object_counter bf + 1\<rparr>
      in (format_tag (object_counter bf'), bf'))"

text \<open>\<^verbatim>\<open>ET.SubElement(BehaviorFileObj.data, 'hkobject')\<close>: the new element goes last.\<close>

definition SubElement_data :: "hkobject \<Rightarrow> world \<Rightarrow> addr \<times> world" where
  "SubElement_data obj w = (length (data w), w\<lparr>data := data w @ [obj]\<rparr>)"

text \<open>
  A method changes the object it is bound to. Python reaches a method through the object,
  so the address always holds an object of the method's class; the update functions below
  leave an object of another class as it is.
\<close>

definition update_obj :: "addr \<Rightarrow> (hkobject \<Rightarrow> hkobject) \<Rightarrow> world \<Rightarrow> world" where
  "update_obj a f w = w\<lparr>data := (data w)[a := f (data w ! a)]\<rparr>"

definition tag_at :: "world \<Rightarrow> addr \<Rightarrow> string" where
  "tag_at w a = tag (data w ! a)"

section \<open>Event tables\<close>

text \<open>\<^verbatim>\<open>hkbBehaviorGraphStringData.__init__\<close>, \<^verbatim>\<open>hkbVariableValueSet.__init__\<close>.\<close>

definition hkbBehaviorGraphStringData_init ::
    "BehaviorFile \<Rightarrow> world \<Rightarrow> addr \<times> BehaviorFile \<times> world" where
  "hkbBehaviorGraphStringData_init bf w =
     (let (t, bf1) = OCnext bf;
          (a, w1) = SubElement_data (HkbBehaviorGraphStringData t 0 (py_str 0) []) w
      in (a, bf1, w1))"

definition hkbVariableValueSet_init ::
    "BehaviorFile \<Rightarrow> world \<Rightarrow> addr \<times> BehaviorFile \<times> world" where
  "hkbVariableValueSet_init bf w =
     (let (t, bf1) = OCnext bf;
          (a, w1) = SubElement_data (HkbVariableValueSet t) w
      in (a, bf1, w1))"

text \<open>
  \<^verbatim>\<open>hkbBehaviorGraphData.__init__\<close> reads the tags of the value set and of the string data
  through the builder. Were one of the two attributes still \<^verbatim>\<open>None\<close>, the read would raise
  \<^verbatim>\<open>AttributeError\<close> with the element already in the data section; the parameter that was
  not reached then shows with an empty text.
\<close>

definition hkbBehaviorGraphData_init ::
    "BehaviorFile \<Rightarrow> world \<Rightarrow> (error + addr) \<times> BehaviorFile \<times> world" where
  "hkbBehaviorGraphData_init bf w =
     (let (t, bf1) = OCnext bf
      in case hkbVariableValueSet bf1 of
           None \<Rightarrow>
             (Inl AttributeError, bf1,
              snd (SubElement_data (HkbBehaviorGraphData t 0 (py_str 0) [] [] []) w))
         | Some vs \<Rightarrow>
             (case hkbBehaviorGraphStringData bf1 of
                None \<Rightarrow>
                  (Inl AttributeError, bf1,
                   snd (SubElement_data
                          (HkbBehaviorGraphData t 0 (py_str 0) [] (tag_at w vs) []) w))
              | Some sd \<Rightarrow>
                  (let (a, w1) = SubElement_data
                         (HkbBehaviorGraphData t 0 (py_str 0) [] (tag_at w vs) (tag_at w sd)) w
                   in (Inr a, bf1, w1))))"

text \<open>\<^verbatim>\<open>hkbBehaviorGraphData.add_event(flags=0)\<close>.\<close>

fun eventInfos_append :: "int \<Rightarrow> hkobject \<Rightarrow> hkobject" where
  "eventInfos_append fl (HkbBehaviorGraphData t n ne infos viv sd) =
     HkbBehaviorGraphData t (n + 1) (py_str (n + 1)) (infos @ [py_str fl]) viv sd"
| "eventInfos_append fl ob = ob"

definition gd_add_event :: "addr \<Rightarrow> int \<Rightarrow> world \<Rightarrow> world" where
  "gd_add_event self fl w = update_obj self (eventInfos_append fl) w"

text \<open>
  \<^verbatim>\<open>hkbBehaviorGraphStringData.add_event\<close>. \<^verbatim>\<open>raise "..."\<close> with a string operand is a
  \<^verbatim>\<open>TypeError\<close> in Python 3.
\<close>

fun eventNames_append :: "string \<Rightarrow> hkobject \<Rightarrow> hkobject" where
  "eventNames_append e (HkbBehaviorGraphStringData t n ne names) =
     HkbBehaviorGraphStringData t (n + 1) (py_str (n + 1)) (names @ [e])"
| "eventNames_append e ob = ob"

definition sd_add_event :: "addr \<Rightarrow> string \<Rightarrow> world \<Rightarrow> (error + unit) \<times> world" where
  "sd_add_event self event_name w =
     (if event_name \<in> set (event_name_list w) then (Inl TypeError, w)
      else
        let w1 = update_obj self (eventNames_append event_name) w;
            w2 = w1\<lparr>event_name_list := event_name_list w1 @ [event_name]\<rparr>
        in (Inr (), warning (''created new event '' @ event_name) w2))"

text \<open>\<^verbatim>\<open>get_eventID\<close>: the index loop with its \<^verbatim>\<open>else\<close> branch.\<close>

fun eventIndex_loop :: "string list \<Rightarrow> string \<Rightarrow> nat \<Rightarrow> nat option" where
  "eventIndex_loop [] event i = None"
| "eventIndex_loop (x # xs) event i = (if x = event then Some i else eventIndex_loop xs event (Suc i))"

definition get_eventID :: "string \<Rightarrow> world \<Rightarrow> error + int" where
  "get_eventID event w =
     (case eventIndex_loop (event_name_list w) event 0 of
        None \<Rightarrow> Inl TypeError
      | Some i \<Rightarrow> Inr (int i))"

function getOrCreateEventID ::
    "addr \<Rightarrow> BehaviorFile \<Rightarrow> string \<Rightarrow> world \<Rightarrow> (error + int) \<times> world" where
  "getOrCreateEventID self bf event_name w =
     (if event_name \<in> set (event_name_list w) then (get_eventID event_name w, w)
      else
        case sd_add_event self event_name w of
          (Inl e, w1) \<Rightarrow> (Inl e, w1)
        | (Inr _, w1) \<Rightarrow>
            (case hkbBehaviorGraphData bf of
               None \<Rightarrow> (Inl AttributeError, w1)
             | Some gd \<Rightarrow> getOrCreateEventID self bf event_name (gd_add_event gd 0 w1)))"
  by pat_completeness auto

termination
  by (relation "measure (\<lambda>(self, bf, n, w). if n \<in> set (event_name_list w) then 0 else 1)")
     (auto simp: sd_add_event_def warning_def update_obj_def gd_add_event_def Let_def
           split: if_splits)

declare getOrCreateEventID.simps [simp del]

section \<open>Node classes\<close>

definition hkbBlendingTransitionEffect_init ::
    "string \<Rightarrow> BehaviorFile \<Rightarrow> world \<Rightarrow> addr \<times> BehaviorFile \<times> world" where
  "hkbBlendingTransitionEffect_init name bf w =
     (let (t, bf1) = OCnext bf;
          (a, w1) = SubElement_data (HkbBlendingTransitionEffect t name) w
      in (a, bf1, w1))"

definition hkbStateMachineTransitionInfoArray_init ::
    "BehaviorFile \<Rightarrow> world \<Rightarrow> addr \<times> BehaviorFile \<times> world" where
  "hkbStateMachineTransitionInfoArray_init bf w =
     (let (t, bf1) = OCnext bf;
          (a, w1) = SubElement_data (HkbStateMachineTransitionInfoArray t 0 (py_str 0) []) w
      in (a, bf1, w1))"

fun transitions_append :: "int \<Rightarrow> int \<Rightarrow> string \<Rightarrow> string \<Rightarrow> bool \<Rightarrow> hkobject \<Rightarrow> hkobject" where
  "transitions_append eventIdIdx toStateIdIdx transitionStr conditionStr wildcard
       (HkbStateMachineTransitionInfoArray t n ne ts) =
     HkbStateMachineTransitionInfoArray t (n + 1) (py_str (n + 1))
       (ts @ [\<lparr>transition_ref = transitionStr, condition = conditionStr,
               eventId = py_str eventIdIdx, toStateId = py_str toStateIdIdx,
               flags = (if wildcard then ''FLAG_IS_LOCAL_WILDCARD|FLAG_DISABLE_CONDITION''
                        else ''FLAG_DISABLE_CONDITION'')\<rparr>])"
| "transitions_append eventIdIdx toStateIdIdx transitionStr conditionStr wildcard ob = ob"

definition add_transition ::
    "addr \<Rightarrow> int \<Rightarrow> int \<Rightarrow> string \<Rightarrow> string \<Rightarrow> bool \<Rightarrow> world \<Rightarrow> world" where
  "add_transition self eventIdIdx toStateIdIdx transitionStr conditionStr wildcard w =
     update_obj self
       (transitions_append eventIdIdx toStateIdIdx transitionStr conditionStr wildcard) w"

text \<open>
  \<^verbatim>\<open>hkbClipGenerator.__init__\<close>: \<^verbatim>\<open>triggers\<close> is a string (\<open>Inl\<close>, the default \<^verbatim>\<open>"null"\<close>) or a
  trigger array (\<open>Inr\<close>), whose tag is written.
\<close>

definition hkbClipGenerator_init ::
    "string \<Rightarrow> string \<Rightarrow> string + addr \<Rightarrow> bool \<Rightarrow> BehaviorFile \<Rightarrow> world
      \<Rightarrow> addr \<times> BehaviorFile \<times> world" where
  "hkbClipGenerator_init name anim_path triggers looping bf w =
     (let (t, bf1) = OCnext bf;
          (a, w1) = SubElement_data
             (HkbClipGenerator t name anim_path
                (case triggers of Inl s \<Rightarrow> s | Inr tr \<Rightarrow> tag_at w tr)
                (if looping then ''MODE_LOOPING'' else ''MODE_SINGLE_PLAY'')) w
      in (a, bf1, w1))"

fun triggers_set :: "string \<Rightarrow> hkobject \<Rightarrow> hkobject" where
  "triggers_set tr (HkbClipGenerator t name anim trg mode) = HkbClipGenerator t name anim tr mode"
| "triggers_set tr ob = ob"

definition set_trigger :: "addr \<Rightarrow> addr \<Rightarrow> world \<Rightarrow> world" where
  "set_trigger self trigger w = update_obj self (triggers_set (tag_at w trigger)) w"

definition BGSGamebryoSequenceGenerator_init ::
    "string \<Rightarrow> BehaviorFile \<Rightarrow> world \<Rightarrow> addr \<times> BehaviorFile \<times> world" where
  "BGSGamebryoSequenceGenerator_init nifAnimName bf w =
     (let (t, bf1) = OCnext bf;
          (a, w1) = SubElement_data
             (BGSGamebryoSequenceGenerator t (nifAnimName @ ''Sequence'') nifAnimName) w
      in (a, bf1, w1))"

fun isinstance_BGSGamebryoSequenceGenerator :: "hkobject \<Rightarrow> bool" where
  "isinstance_BGSGamebryoSequenceGenerator (BGSGamebryoSequenceGenerator _ _ _) = True"
| "isinstance_BGSGamebryoSequenceGenerator _ = False"

text \<open>
  \<^verbatim>\<open>hkbStateMachineStateInfo.__init__\<close>: an enter or exit list is an event property array
  (\<open>Some\<close>) or the string \<^verbatim>\<open>"null"\<close> (\<open>None\<close>).
\<close>

definition hkbStateMachineStateInfo_init ::
    "addr \<Rightarrow> addr \<Rightarrow> string \<Rightarrow> int \<Rightarrow> addr option \<Rightarrow> addr option \<Rightarrow> BehaviorFile \<Rightarrow> world
      \<Rightarrow> addr \<times> BehaviorFile \<times> world" where
  "hkbStateMachineStateInfo_init generator transitions name state_ID enterNotifyEvents
       exitNotifyEvents bf w =
     (let (t, bf1) = OCnext bf;
          (a, w1) = SubElement_data
             (HkbStateMachineStateInfo t
                (case enterNotifyEvents of None \<Rightarrow> ''null'' | Some e \<Rightarrow> tag_at w e)
                (case exitNotifyEvents of None \<Rightarrow> ''null'' | Some e \<Rightarrow> tag_at w e)
                (tag_at w transitions) (tag_at w generator) name state_ID (py_str state_ID)
                None) w
      in (a, bf1, w1))"

fun stateIdx :: "hkobject \<Rightarrow> int" where
  "stateIdx (HkbStateMachineStateInfo _ _ _ _ _ _ i _ _) = i"
| "stateIdx _ = 0"

fun hkbClipTriggerArray_of :: "hkobject \<Rightarrow> addr option" where
  "hkbClipTriggerArray_of (HkbStateMachineStateInfo _ _ _ _ _ _ _ _ c) = c"
| "hkbClipTriggerArray_of _ = None"

fun hkbClipTriggerArray_set :: "addr \<Rightarrow> hkobject \<Rightarrow> hkobject" where
  "hkbClipTriggerArray_set c (HkbStateMachineStateInfo t en ex tr g n i si _) =
     HkbStateMachineStateInfo t en ex tr g n i si (Some c)"
| "hkbClipTriggerArray_set c ob = ob"

definition hkbClipTriggerArray_init ::
    "BehaviorFile \<Rightarrow> world \<Rightarrow> addr \<times> BehaviorFile \<times> world" where
  "hkbClipTriggerArray_init bf w =
     (let (t, bf1) = OCnext bf;
          (a, w1) = SubElement_data (HkbClipTriggerArray t 0 (py_str 0) []) w
      in (a, bf1, w1))"

definition getOrCreateClipTriggerArray ::
    "addr \<Rightarrow> BehaviorFile \<Rightarrow> world \<Rightarrow> addr \<times> BehaviorFile \<times> world" where
  "getOrCreateClipTriggerArray self bf w =
     (case hkbClipTriggerArray_of (data w ! self) of
        None \<Rightarrow>
          (let (c, bf1, w1) = hkbClipTriggerArray_init bf w
           in (c, bf1, update_obj self (hkbClipTriggerArray_set c) w1))
      | Some c \<Rightarrow> (c, bf, w))"

text \<open>
  \<^verbatim>\<open>hkbClipTriggerArray.add_trigger\<close> adds the child element first and then formats
  \<^verbatim>\<open>float(localTime)\<close>. The conversion raises \<^verbatim>\<open>OverflowError\<close> for an int that rounds
  to \<open>2 ^ 1024\<close> or beyond, which are the ints of absolute value at least
  \<open>2 ^ 1024 - 2 ^ 970\<close>; the child then stays in the table unfinished (\<open>None\<close>) and the
  count is not updated. A float is formatted as it is.
\<close>

fun overflows :: "pynum \<Rightarrow> bool" where
  "overflows (PyInt n) = (2 ^ 1024 - 2 ^ 970 \<le> \<bar>n\<bar>)"
| "overflows _ = False"

fun triggers_unfinished :: "hkobject \<Rightarrow> hkobject" where
  "triggers_unfinished (HkbClipTriggerArray t n ne trs) = HkbClipTriggerArray t n ne (trs @ [None])"
| "triggers_unfinished ob = ob"

fun triggers_append :: "pynum \<Rightarrow> int \<Rightarrow> bool \<Rightarrow> hkobject \<Rightarrow> hkobject" where
  "triggers_append lt EventID rel (HkbClipTriggerArray t n ne trs) =
     HkbClipTriggerArray t (n + 1) (py_str (n + 1))
       (trs @ [Some \<lparr>localTime = lt, event_id = py_str EventID,
                     relativeToEndOfClip = (if rel then ''true'' else ''false'')\<rparr>])"
| "triggers_append lt EventID rel ob = ob"

definition add_trigger ::
    "addr \<Rightarrow> pynum \<Rightarrow> int \<Rightarrow> bool \<Rightarrow> world \<Rightarrow> (error + unit) \<times> world" where
  "add_trigger self lt EventID rel w =
     (if overflows lt then (Inl OverflowError, update_obj self triggers_unfinished w)
      else (Inr (), update_obj self (triggers_append lt EventID rel) w))"

text \<open>
  \<^verbatim>\<open>hkbStateMachineEventPropertyArray.__init__\<close>: \<^verbatim>\<open>events\<close> is a list of names or one
  name. The count is fixed before the loop; the loop registers each name and appends its
  id.
\<close>

datatype events_arg = EvStr string | EvList "string list"

fun events_append :: "string \<Rightarrow> hkobject \<Rightarrow> hkobject" where
  "events_append i (HkbStateMachineEventPropertyArray t n ne evs) =
     HkbStateMachineEventPropertyArray t n ne (evs @ [i])"
| "events_append i ob = ob"

fun events_loop ::
    "addr \<Rightarrow> BehaviorFile \<Rightarrow> string list \<Rightarrow> world \<Rightarrow> (error + unit) \<times> world" where
  "events_loop self bf [] w = (Inr (), w)"
| "events_loop self bf (e # es) w =
     (case hkbBehaviorGraphStringData bf of
        None \<Rightarrow> (Inl AttributeError, w)
      | Some sd \<Rightarrow>
          (case getOrCreateEventID sd bf e w of
             (Inl err, w1) \<Rightarrow> (Inl err, w1)
           | (Inr eventID, w1) \<Rightarrow>
               events_loop self bf es (update_obj self (events_append (py_str eventID)) w1)))"

definition hkbStateMachineEventPropertyArray_init ::
    "events_arg \<Rightarrow> BehaviorFile \<Rightarrow> world \<Rightarrow> (error + addr) \<times> BehaviorFile \<times> world" where
  "hkbStateMachineEventPropertyArray_init events bf w =
     (let (t, bf1) = OCnext bf;
          evs = (case events of EvList l \<Rightarrow> l | EvStr s \<Rightarrow> [s]);
          num_elements = int (length evs);
          (a, w1) = SubElement_data
             (HkbStateMachineEventPropertyArray t num_elements (py_str num_elements) []) w
      in case events_loop a bf1 evs w1 of
           (Inl err, w2) \<Rightarrow> (Inl err, bf1, w2)
         | (Inr _, w2) \<Rightarrow> (Inr a, bf1, w2))"

text \<open>
  \<^verbatim>\<open>hkbStateMachine.__init__\<close> and \<^verbatim>\<open>hkbStateMachine.add_state\<close>. The counter \<^verbatim>\<open>nStates\<close> is
  the instance's; the list of tags is the class attribute in the world.
\<close>

definition hkbStateMachine_init ::
    "string \<Rightarrow> int \<Rightarrow> BehaviorFile \<Rightarrow> world \<Rightarrow> addr \<times> BehaviorFile \<times> world" where
  "hkbStateMachine_init name startStateIdIdx bf w =
     (let (t, bf1) = OCnext bf;
          (a, w1) = SubElement_data
             (HkbStateMachine t name (py_str startStateIdIdx) 0 (py_str 0) []
                (case wildcardtransitions bf1 of
                   Some wt \<Rightarrow> tag_at w wt
                 | None \<Rightarrow> ''null'')) w
      in (a, bf1, w1))"

fun states_set :: "string list \<Rightarrow> hkobject \<Rightarrow> hkobject" where
  "states_set l (HkbStateMachine t name st n ne sts wc) =
     HkbStateMachine t name st (n + 1) (py_str (n + 1)) l wc"
| "states_set l ob = ob"

definition sm_add_state :: "addr \<Rightarrow> addr \<Rightarrow> world \<Rightarrow> world" where
  "sm_add_state self state w =
     (let w1 = w\<lparr>sm_list_of_states := sm_list_of_states w @ [tag_at w state]\<rparr>
      in update_obj self (states_set (sm_list_of_states w1)) w1)"

text \<open>
  \<^verbatim>\<open>hkbBehaviorGraph.__init__\<close> reads the tag of the state machine and of the graph data
  through the builder, after the element is in the data section.
\<close>

definition hkbBehaviorGraph_init ::
    "string \<Rightarrow> BehaviorFile \<Rightarrow> world \<Rightarrow> (error + addr) \<times> BehaviorFile \<times> world" where
  "hkbBehaviorGraph_init name bf w =
     (let (t, bf1) = OCnext bf
      in case hkbStateMachineObj bf1 of
           None \<Rightarrow>
             (Inl AttributeError, bf1,
              snd (SubElement_data (HkbBehaviorGraph t (name @ ''.hkb'') [] []) w))
         | Some sm \<Rightarrow>
             (case hkbBehaviorGraphData bf1 of
                None \<Rightarrow>
                  (Inl AttributeError, bf1,
                   snd (SubElement_data (HkbBehaviorGraph t (name @ ''.hkb'') (tag_at w sm) []) w))
              | Some gd \<Rightarrow>
                  (let (a, w1) = SubElement_data
                         (HkbBehaviorGraph t (name @ ''.hkb'') (tag_at w sm) (tag_at w gd)) w
                   in (Inr a, bf1, w1))))"

section \<open>The builder\<close>

text \<open>
  \<^verbatim>\<open>BehaviorFile.__init__\<close>. A new instance sees the class attributes: the counter at
  \<open>root_index\<close>, no state counted, the object attributes \<^verbatim>\<open>None\<close>.
\<close>

definition new_BehaviorFile :: "world \<Rightarrow> (error + BehaviorFile) \<times> world" where
  "new_BehaviorFile w =
     (let bf0 = \<lparr>object_counter = root_index, nStates = 0,
                 hkbBehaviorGraphStringData = None, hkbVariableValueSet = None,
                 hkbBehaviorGraphData = None, blend_effect = None,
                 wildcardtransitions = None, hkbStateMachineObj = None,
                 hkbBehaviorGraphObj = None\<rparr>;
          (sd, bf1, w1) = hkbBehaviorGraphStringData_init bf0 w;
          bf1 = bf1\<lparr>hkbBehaviorGraphStringData := Some sd\<rparr>;
          (vs, bf2, w2) = hkbVariableValueSet_init bf1 w1;
          bf2 = bf2\<lparr>hkbVariableValueSet := Some vs\<rparr>
      in case hkbBehaviorGraphData_init bf2 w2 of
           (Inl e, bf3, w3) \<Rightarrow> (Inl e, w3)
         | (Inr gd, bf3, w3) \<Rightarrow>
             (let bf3 = bf3\<lparr>hkbBehaviorGraphData := Some gd\<rparr>;
                  (be, bf4, w4) = hkbBlendingTransitionEffect_init ''ZeroDuration'' bf3 w3
              in (Inr (bf4\<lparr>blend_effect := Some be\<rparr>), w4)))"

text \<open>
  The lookup loop of \<^verbatim>\<open>add_clip_trigger\<close>, \<^verbatim>\<open>connect_states\<close> and \<^verbatim>\<open>add_wildcard\<close>:
  \<^verbatim>\<open>for stateInfo, stateGenerator, stateTransitions, stateName in self.list_of_states\<close>
  with a \<^verbatim>\<open>break\<close> at the name and an \<^verbatim>\<open>else\<close> branch. The loop variables outlive the
  loop. The result says whether the loop broke, and what the variables hold afterwards:
  the entry found, the last entry when the name was not found, nothing when the list is
  empty.
\<close>

fun state_loop :: "state_entry list \<Rightarrow> string \<Rightarrow> state_entry option \<Rightarrow> bool \<times> state_entry option" where
  "state_loop [] name vars = (False, vars)"
| "state_loop ((stateInfo, stateGenerator, stateTransitions, stateName) # es) name vars =
     (if stateName = name then (True, Some (stateInfo, stateGenerator, stateTransitions, stateName))
      else state_loop es name (Some (stateInfo, stateGenerator, stateTransitions, stateName)))"

text \<open>The uniqueness loop of \<^verbatim>\<open>add_state\<close>, which returns at the first equal name.\<close>

fun name_in_project :: "state_entry list \<Rightarrow> string \<Rightarrow> bool" where
  "name_in_project [] name = False"
| "name_in_project ((stateInfo, stateGenerator, stateTransitions, stateName) # es) name =
     (if stateName = name then True else name_in_project es name)"

type_synonym 'a outcome = "(error + 'a) \<times> BehaviorFile \<times> world"

text \<open>An enter or exit argument other than \<^verbatim>\<open>"null"\<close> becomes an event property array.\<close>

definition notify_events :: "events_arg \<Rightarrow> BehaviorFile \<Rightarrow> world \<Rightarrow> (addr option) outcome" where
  "notify_events events bf w =
     (if events \<noteq> EvStr ''null'' then
        (case hkbStateMachineEventPropertyArray_init events bf w of
           (Inl e, bf1, w1) \<Rightarrow> (Inl e, bf1, w1)
         | (Inr a, bf1, w1) \<Rightarrow> (Inr (Some a), bf1, w1))
      else (Inr None, bf, w))"

definition add_state ::
    "string \<Rightarrow> string \<Rightarrow> bool \<Rightarrow> bool \<Rightarrow> events_arg \<Rightarrow> events_arg \<Rightarrow> BehaviorFile \<Rightarrow> world
      \<Rightarrow> unit outcome" where
  "add_state name animation_path looping gamebryoanim enterNotifyEvents exitNotifyEvents bf w =
     (if \<not> gamebryoanim \<and> animation_path = ''placeholder'' then
        (Inr (), bf,
         warning (''If adding a .hkx animation state, the animation_path argument must be ''
                  @ ''passed: 'animations'' @ [CHR 0x5C] @ ''<your anim name.hkx>'') w)
      else if name_in_project (list_of_states w) name then
        (Inr (), bf,
         warning (''a state with name '' @ name @ '' already in project, chose a unique name'') w)
      else
        let (transitions, bf1, w1) = hkbStateMachineTransitionInfoArray_init bf w;
            (generator, bf2, w2) =
               (if \<not> gamebryoanim
                then hkbClipGenerator_init name animation_path (Inl ''null'') looping bf1 w1
                else BGSGamebryoSequenceGenerator_init name bf1 w1)
        in case notify_events enterNotifyEvents bf2 w2 of
             (Inl e, bf3, w3) \<Rightarrow> (Inl e, bf3, w3)
           | (Inr enter_eventPropArray, bf3, w3) \<Rightarrow>
               (case notify_events exitNotifyEvents bf3 w3 of
                  (Inl e, bf4, w4) \<Rightarrow> (Inl e, bf4, w4)
                | (Inr exit_eventPropArray, bf4, w4) \<Rightarrow>
                    (let (state, bf5, w5) =
                           hkbStateMachineStateInfo_init generator transitions name (nStates bf4)
                             enter_eventPropArray exit_eventPropArray bf4 w4;
                         bf6 = bf5\<lparr>nStates := nStates bf5 + 1\<rparr>;
                         w6 = w5\<lparr>list_of_states :=
                                   list_of_states w5 @ [(state, generator, transitions, name)]\<rparr>
                     in (Inr (), bf6,
                         warning (''added state '' @ name @ '' with state ID ''
                                  @ py_str (stateIdx (data w6 ! state)) @ '' to project'') w6))))"

definition add_clip_trigger ::
    "string \<Rightarrow> string \<Rightarrow> bool \<Rightarrow> pynum \<Rightarrow> BehaviorFile \<Rightarrow> world \<Rightarrow> unit outcome" where
  "add_clip_trigger state event rel lt bf w =
     (let (found, vars) = state_loop (list_of_states w) state None;
          w1 = (if found then w
                else warning (''add_clip_trigger error, state '' @ state @ '' doesnt exist'') w)
      in case vars of
           None \<Rightarrow> (Inl UnboundLocalError, bf, w1)
         | Some (stateInfo, stateGenerator, stateTransitions, stateName) \<Rightarrow>
             (if isinstance_BGSGamebryoSequenceGenerator (data w1 ! stateGenerator) then
                (Inl TypeError, bf, w1)
              else
                (let (clip_trigger, bf2, w2) = getOrCreateClipTriggerArray stateInfo bf w1
                 in (case hkbBehaviorGraphStringData bf2 of
                       None \<Rightarrow> (Inl AttributeError, bf2, w2)
                     | Some sd \<Rightarrow>
                         (case getOrCreateEventID sd bf2 event w2 of
                            (Inl e, w3) \<Rightarrow> (Inl e, bf2, w3)
                          | (Inr event_ID, w3) \<Rightarrow>
                              (case add_trigger clip_trigger lt event_ID rel w3 of
                                 (Inl e, w4) \<Rightarrow> (Inl e, bf2, w4)
                               | (Inr _, w4) \<Rightarrow>
                                   (let w5 = set_trigger stateGenerator clip_trigger w4
                                    in (Inr (), bf2, w5))))))))"

definition connect_states ::
    "string \<Rightarrow> string \<Rightarrow> string \<Rightarrow> BehaviorFile \<Rightarrow> world \<Rightarrow> unit outcome" where
  "connect_states state1 state2 event bf w =
     (if state1 = state2 then (Inl AssertionError, bf, w)
      else
        let (found1, vars1) = state_loop (list_of_states w) state1 None;
            w1 = (if found1 then w
                  else warning (''connect_states error, state1 '' @ state1 @ '' doesnt exist'') w);
            (found2, vars2) = state_loop (list_of_states w1) state2 None;
            w2 = (if found2 then w1
                  else warning (''connect_states error, state2 '' @ state2 @ '' doesnt exist'') w1)
        in case hkbBehaviorGraphStringData bf of
             None \<Rightarrow> (Inl AttributeError, bf, w2)
           | Some sd \<Rightarrow>
               (case getOrCreateEventID sd bf event w2 of
                  (Inl e, w3) \<Rightarrow> (Inl e, bf, w3)
                | (Inr eventIndex, w3) \<Rightarrow>
                    (case vars1 of
                       None \<Rightarrow> (Inl UnboundLocalError, bf, w3)
                     | Some (stateInfo, stateGenerator, stateTransitions, stateName) \<Rightarrow>
                         (case vars2 of
                            None \<Rightarrow> (Inl UnboundLocalError, bf, w3)
                          | Some (stateInfo2, stateGenerator2, stateTransitions2, stateName2) \<Rightarrow>
                              (case blend_effect bf of
                                 None \<Rightarrow> (Inl AttributeError, bf, w3)
                               | Some be \<Rightarrow>
                                   (let w4 = add_transition stateTransitions eventIndex
                                               (stateIdx (data w3 ! stateInfo2)) (tag_at w3 be)
                                               ''null'' False w3
                                    in (Inr (), bf,
                                        warning (''added a transition from '' @ state1 @ '' to ''
                                                 @ state2 @ '' (ID ''
                                                 @ py_str (stateIdx (data w4 ! stateInfo2))
                                                 @ '') with event '' @ event) w4)))))))"

definition getOrCreatewildcardtransitions ::
    "BehaviorFile \<Rightarrow> world \<Rightarrow> addr \<times> BehaviorFile \<times> world" where
  "getOrCreatewildcardtransitions bf w =
     (case wildcardtransitions bf of
        Some wt \<Rightarrow> (wt, bf, w)
      | None \<Rightarrow>
          (let (wt, bf1, w1) = hkbStateMachineTransitionInfoArray_init bf w
           in (wt, bf1\<lparr>wildcardtransitions := Some wt\<rparr>, w1)))"

definition add_wildcard :: "string \<Rightarrow> string \<Rightarrow> BehaviorFile \<Rightarrow> world \<Rightarrow> unit outcome" where
  "add_wildcard stateStr event bf w =
     (case state_loop (list_of_states w) stateStr None of
        (False, vars) \<Rightarrow>
          (Inr (), bf,
           warning (''Add_wildcard error, state '' @ stateStr
                    @ '' doesnt exist, create it first'') w)
      | (True, None) \<Rightarrow> (Inl UnboundLocalError, bf, w)
      | (True, Some (stateInfo, stateGenerator, stateTransitions, stateName)) \<Rightarrow>
          (case hkbBehaviorGraphStringData bf of
             None \<Rightarrow> (Inl AttributeError, bf, w)
           | Some sd \<Rightarrow>
               (case getOrCreateEventID sd bf event w of
                  (Inl e, w1) \<Rightarrow> (Inl e, bf, w1)
                | (Inr eventIndex, w1) \<Rightarrow>
                    (let (wildcardtransitionsOBJ, bf2, w2) = getOrCreatewildcardtransitions bf w1
                     in case blend_effect bf2 of
                          None \<Rightarrow> (Inl AttributeError, bf2, w2)
                        | Some be \<Rightarrow>
                            (let w3 = add_transition wildcardtransitionsOBJ eventIndex
                                        (stateIdx (data w2 ! stateInfo)) (tag_at w2 be)
                                        ''null'' True w2
                             in (Inr (), bf2,
                                 warning (''Added wildcard transition to state '' @ stateStr
                                          @ '' with event '' @ event) w3))))))"

subsection \<open>Finalize and export\<close>

fun finalize_loop :: "addr \<Rightarrow> state_entry list \<Rightarrow> world \<Rightarrow> world" where
  "finalize_loop sm [] w = w"
| "finalize_loop sm ((stateInfo, stateGenerator, stateTransitions, stateName) # es) w =
     finalize_loop sm es (sm_add_state sm stateInfo w)"

definition finalize :: "BehaviorFile \<Rightarrow> world \<Rightarrow> unit outcome" where
  "finalize bf w =
     (let (sm, bf1, w1) = hkbStateMachine_init ''defaultNameBehavior'' 0 bf w;
          bf1 = bf1\<lparr>hkbStateMachineObj := Some sm\<rparr>;
          w2 = finalize_loop sm (list_of_states w1) w1
      in case hkbBehaviorGraph_init ''defaultNameBehavior'' bf1 w2 of
           (Inl e, bf2, w3) \<Rightarrow> (Inl e, bf2, w3)
         | (Inr bg, bf2, w3) \<Rightarrow>
             (let bf2 = bf2\<lparr>hkbBehaviorGraphObj := Some bg\<rparr>;
                  (root, w4) = SubElement_data
                     (HkRootLevelContainer (format_tag root_index) ''1'' ''hkbBehaviorGraph''
                        ''hkbBehaviorGraph'' (tag_at w3 bg)) w3
              in (Inr (), bf2, w4)))"

text \<open>
  \<^verbatim>\<open>export\<close> finalizes and writes the \<^verbatim>\<open>hkpackfile\<close> element, whose \<^verbatim>\<open>toplevelobject\<close>
  attribute was set from \<open>root_index\<close> when the class was created. The model returns the
  document instead of writing it to a file.
\<close>

record hkpackfile =
  classversion :: string
  contentsversion :: string
  toplevelobject :: string
  hksection :: "hkobject list"

definition export :: "BehaviorFile \<Rightarrow> world \<Rightarrow> hkpackfile outcome" where
  "export bf w =
     (case finalize bf w of
        (Inl e, bf1, w1) \<Rightarrow> (Inl e, bf1, w1)
      | (Inr _, bf1, w1) \<Rightarrow>
          (Inr \<lparr>classversion = ''8'', contentsversion = ''hk_2010.2.0-r1'',
                toplevelobject = format_tag root_index, hksection = data w1\<rparr>, bf1, w1))"

subsection \<open>Build scripts\<close>

text \<open>
  A build is a sequence of calls of the mutation API on one instance. An exception does
  not undo what the call did before it was raised; a caller that catches it goes on from
  that state, so a script runs every call and keeps each result.
\<close>

datatype op =
    Add_state string string bool bool events_arg events_arg
  | Add_clip_trigger string string bool pynum
  | Connect_states string string string
  | Add_wildcard string string

fun run_op :: "op \<Rightarrow> BehaviorFile \<Rightarrow> world \<Rightarrow> unit outcome" where
  "run_op (Add_state name animation_path looping gamebryoanim enter exit) bf w =
     add_state name animation_path looping gamebryoanim enter exit bf w"
| "run_op (Add_clip_trigger state event rel lt) bf w = add_clip_trigger state event rel lt bf w"
| "run_op (Connect_states state1 state2 event) bf w = connect_states state1 state2 event bf w"
| "run_op (Add_wildcard stateStr event) bf w = add_wildcard stateStr event bf w"

fun run_ops :: "op list \<Rightarrow> BehaviorFile \<times> world \<Rightarrow> BehaviorFile \<times> world" where
  "run_ops [] s = s"
| "run_ops (x # xs) (bf, w) = run_ops xs (snd (run_op x bf w))"

text \<open>A script on the first instance created in a process.\<close>

definition script :: "op list \<Rightarrow> (BehaviorFile \<times> world) option" where
  "script ops =
     (case new_BehaviorFile init_world of
        (Inl e, w) \<Rightarrow> None
      | (Inr bf, w) \<Rightarrow> Some (run_ops ops (bf, w)))"

subsection \<open>Processes\<close>

text \<open>
  \<^verbatim>\<open>export\<close> is the one other public method of the builder; a call on an instance is a
  call of the mutation API or \<^verbatim>\<open>export\<close>.
\<close>

datatype call = Build op | Export

fun run_call :: "call \<Rightarrow> BehaviorFile \<Rightarrow> world \<Rightarrow> BehaviorFile \<times> world" where
  "run_call (Build x) bf w = snd (run_op x bf w)"
| "run_call Export bf w = snd (export bf w)"

text \<open>
  The class attributes live as long as the Python process, and every instance created in
  it works on them. A process creates instances and calls them, in any order; the
  instances are numbered in the order of their creation, and a call names its instance by
  that number.
\<close>

datatype action = Create | Invoke nat call

fun step :: "action \<Rightarrow> BehaviorFile list \<times> world \<Rightarrow> BehaviorFile list \<times> world" where
  "step Create (bfs, w) =
     (case new_BehaviorFile w of
        (Inl e, w1) \<Rightarrow> (bfs, w1)
      | (Inr bf, w1) \<Rightarrow> (bfs @ [bf], w1))"
| "step (Invoke i c) (bfs, w) =
     (if i < length bfs
      then (case run_call c (bfs ! i) w of (bf1, w1) \<Rightarrow> (bfs[i := bf1], w1))
      else (bfs, w))"

fun run :: "action list \<Rightarrow> BehaviorFile list \<times> world \<Rightarrow> BehaviorFile list \<times> world" where
  "run [] s = s"
| "run (a # as) s = run as (step a s)"

definition process :: "action list \<Rightarrow> BehaviorFile list \<times> world" where
  "process as = run as ([], init_world)"

section \<open>Reading the document\<close>

text \<open>
  What the claims speak about, read off an object: the children of its array parameter,
  the \<^verbatim>\<open>numelements\<close> attribute of that parameter, the Python counter kept beside it, and
  the texts that are references to other objects (a tag or \<^verbatim>\<open>null\<close>).
\<close>

fun eventNames :: "hkobject \<Rightarrow> string list" where
  "eventNames (HkbBehaviorGraphStringData _ _ _ names) = names"
| "eventNames _ = []"

fun eventInfos :: "hkobject \<Rightarrow> string list" where
  "eventInfos (HkbBehaviorGraphData _ _ _ infos _ _) = infos"
| "eventInfos _ = []"

fun transitions :: "hkobject \<Rightarrow> transition list" where
  "transitions (HkbStateMachineTransitionInfoArray _ _ _ ts) = ts"
| "transitions _ = []"

fun states :: "hkobject \<Rightarrow> string list" where
  "states (HkbStateMachine _ _ _ _ _ sts _) = sts"
| "states _ = []"

fun numelements :: "hkobject \<Rightarrow> string" where
  "numelements (HkbBehaviorGraphStringData _ _ ne _) = ne"
| "numelements (HkbBehaviorGraphData _ _ ne _ _ _) = ne"
| "numelements (HkbStateMachineTransitionInfoArray _ _ ne _) = ne"
| "numelements (HkbStateMachineEventPropertyArray _ _ ne _) = ne"
| "numelements (HkbClipTriggerArray _ _ ne _) = ne"
| "numelements (HkbStateMachine _ _ _ _ ne _ _) = ne"
| "numelements (HkRootLevelContainer _ ne _ _ _) = ne"
| "numelements _ = []"

fun counter :: "hkobject \<Rightarrow> int" where
  "counter (HkbBehaviorGraphStringData _ n _ _) = n"
| "counter (HkbBehaviorGraphData _ n _ _ _ _) = n"
| "counter (HkbStateMachineTransitionInfoArray _ n _ _) = n"
| "counter (HkbStateMachineEventPropertyArray _ n _ _) = n"
| "counter (HkbClipTriggerArray _ n _ _) = n"
| "counter (HkbStateMachine _ _ _ n _ _ _) = n"
| "counter _ = 0"

fun stateName :: "hkobject \<Rightarrow> string" where
  "stateName (HkbStateMachineStateInfo _ _ _ _ _ n _ _ _) = n"
| "stateName _ = []"

fun transitions_ref :: "hkobject \<Rightarrow> string" where
  "transitions_ref (HkbStateMachineStateInfo _ _ _ tr _ _ _ _ _) = tr"
| "transitions_ref _ = []"

fun generator_ref :: "hkobject \<Rightarrow> string" where
  "generator_ref (HkbStateMachineStateInfo _ _ _ _ g _ _ _ _) = g"
| "generator_ref _ = []"

fun wildcardTransitions :: "hkobject \<Rightarrow> string" where
  "wildcardTransitions (HkbStateMachine _ _ _ _ _ _ wc) = wc"
| "wildcardTransitions _ = []"

fun rootGenerator :: "hkobject \<Rightarrow> string" where
  "rootGenerator (HkbBehaviorGraph _ _ r _) = r"
| "rootGenerator _ = []"

fun variant :: "hkobject \<Rightarrow> string" where
  "variant (HkRootLevelContainer _ _ _ _ v) = v"
| "variant _ = []"

fun refs :: "hkobject \<Rightarrow> string list" where
  "refs (HkbBehaviorGraphData _ _ _ _ viv sd) = [viv, sd]"
| "refs (HkbStateMachineTransitionInfoArray _ _ _ ts) =
     concat (map (\<lambda>t. [transition_ref t, condition t]) ts)"
| "refs (HkbClipGenerator _ _ _ trg _) = [trg]"
| "refs (HkbStateMachineStateInfo _ en ex tr g _ _ _ _) = [en, ex, tr, g]"
| "refs (HkbStateMachine _ _ _ _ _ sts wc) = sts @ [wc]"
| "refs (HkbBehaviorGraph _ _ r d) = [r, d]"
| "refs (HkRootLevelContainer _ _ _ _ v) = [v]"
| "refs _ = []"

text \<open>A reference resolves in a data section when exactly one object there has it as tag.\<close>

definition resolves :: "hkobject list \<Rightarrow> string \<Rightarrow> bool" where
  "resolves doc r \<longleftrightarrow> (\<exists>i < length doc. tag (doc ! i) = r \<and> (\<forall>j < length doc. tag (doc ! j) = r \<longrightarrow> j = i))"

text \<open>The object a tag names: the first one in the section with that tag.\<close>

definition lookup :: "hkobject list \<Rightarrow> string \<Rightarrow> hkobject option" where
  "lookup doc t = find (\<lambda>ob. tag ob = t) doc"

definition entry_name :: "state_entry \<Rightarrow> string" where
  "entry_name e = snd (snd (snd e))"

definition entry_transitions :: "state_entry \<Rightarrow> addr" where
  "entry_transitions e = fst (snd (snd e))"

definition entry_generator :: "state_entry \<Rightarrow> addr" where
  "entry_generator e = fst (snd e)"

definition entry_state :: "state_entry \<Rightarrow> addr" where
  "entry_state e = fst e"

section \<open>What every call preserves\<close>

text \<open>
  The data section, the state list and the event name list only grow, and an object keeps
  its tag and its class.
\<close>

definition grows :: "world \<Rightarrow> world \<Rightarrow> bool" where
  "grows w w' \<longleftrightarrow>
     prefix (map tag (data w)) (map tag (data w'))
     \<and> prefix (map class_of (data w)) (map class_of (data w'))
     \<and> prefix (list_of_states w) (list_of_states w')
     \<and> prefix (event_name_list w) (event_name_list w')"

text \<open>
  The instance's counter never goes down, and the attributes set by \<^verbatim>\<open>__init__\<close> are not
  assigned again; the wildcard table, once created, stays.
\<close>

definition keeps :: "BehaviorFile \<Rightarrow> BehaviorFile \<Rightarrow> bool" where
  "keeps bf bf' \<longleftrightarrow>
     object_counter bf \<le> object_counter bf'
     \<and> hkbBehaviorGraphStringData bf' = hkbBehaviorGraphStringData bf
     \<and> hkbVariableValueSet bf' = hkbVariableValueSet bf
     \<and> hkbBehaviorGraphData bf' = hkbBehaviorGraphData bf
     \<and> blend_effect bf' = blend_effect bf
     \<and> (wildcardtransitions bf \<noteq> None \<longrightarrow> wildcardtransitions bf' = wildcardtransitions bf)"

text \<open>
  Registering events adds no object and no state; it changes the two event tables and the
  event property array being filled, and no reference.
\<close>

definition event_classes :: "string set" where
  "event_classes = {''hkbBehaviorGraphStringData'', ''hkbBehaviorGraphData'',
                    ''hkbStateMachineEventPropertyArray''}"

definition same_objects :: "world \<Rightarrow> world \<Rightarrow> bool" where
  "same_objects w w' \<longleftrightarrow>
     map tag (data w') = map tag (data w)
     \<and> map class_of (data w') = map class_of (data w)
     \<and> map refs (data w') = map refs (data w)
     \<and> (\<forall>a < length (data w). class_of (data w ! a) \<notin> event_classes \<longrightarrow> data w' ! a = data w ! a)
     \<and> list_of_states w' = list_of_states w
     \<and> sm_list_of_states w' = sm_list_of_states w
     \<and> (\<exists>ys. event_name_list w' = event_name_list w @ ys)"

section \<open>The invariant of a build\<close>

text \<open>
  What holds of the first instance of a process after any script, before it is finalized.
  The tags in the data section are the numbers after \<open>root_index\<close> up to the counter, in
  order.
\<close>

definition tags_ok :: "BehaviorFile \<Rightarrow> world \<Rightarrow> bool" where
  "tags_ok bf w \<longleftrightarrow>
     root_index \<le> object_counter bf
     \<and> map tag (data w) = map format_tag [root_index + 1 .. object_counter bf]"

text \<open>The attributes set by \<^verbatim>\<open>__init__\<close> hold objects of the data section.\<close>

definition attrs :: "BehaviorFile \<Rightarrow> world \<Rightarrow> bool" where
  "attrs bf w \<longleftrightarrow>
     hkbBehaviorGraphStringData bf \<noteq> None \<and> hkbBehaviorGraphData bf \<noteq> None
     \<and> blend_effect bf \<noteq> None
     \<and> (\<forall>sd. hkbBehaviorGraphStringData bf = Some sd \<longrightarrow>
           sd < length (data w) \<and> class_of (data w ! sd) = ''hkbBehaviorGraphStringData'')
     \<and> (\<forall>gd. hkbBehaviorGraphData bf = Some gd \<longrightarrow>
           gd < length (data w) \<and> class_of (data w ! gd) = ''hkbBehaviorGraphData'')
     \<and> (\<forall>be. blend_effect bf = Some be \<longrightarrow> be < length (data w))"

text \<open>
  The event name table of the string data is the class-level list of names, without
  repetition; the metadata table has as many entries; both counters and both
  \<^verbatim>\<open>numelements\<close> attributes give that number.
\<close>

definition events_ok :: "BehaviorFile \<Rightarrow> world \<Rightarrow> bool" where
  "events_ok bf w \<longleftrightarrow>
     distinct (event_name_list w)
     \<and> (\<forall>sd gd. hkbBehaviorGraphStringData bf = Some sd \<longrightarrow> hkbBehaviorGraphData bf = Some gd \<longrightarrow>
          eventNames (data w ! sd) = event_name_list w
          \<and> counter (data w ! sd) = int (length (event_name_list w))
          \<and> numelements (data w ! sd) = py_str (int (length (event_name_list w)))
          \<and> length (eventInfos (data w ! gd)) = length (event_name_list w)
          \<and> counter (data w ! gd) = int (length (event_name_list w))
          \<and> numelements (data w ! gd) = py_str (int (length (event_name_list w))))"

text \<open>Nothing has been finalized: no state machine, graph or root container yet.\<close>

definition final_classes :: "string set" where
  "final_classes = {''hkbStateMachine'', ''hkbBehaviorGraph'', ''hkRootLevelContainer''}"

definition draft :: "world \<Rightarrow> bool" where
  "draft w \<longleftrightarrow>
     sm_list_of_states w = [] \<and> set (map class_of (data w)) \<inter> final_classes = {}"

text \<open>Every reference is \<^verbatim>\<open>null\<close> or the tag of an object of the section.\<close>

definition refs_ok :: "world \<Rightarrow> bool" where
  "refs_ok w \<longleftrightarrow>
     (\<forall>rs \<in> set (map refs (data w)). \<forall>r \<in> set rs. r = ''null'' \<or> r \<in> set (map tag (data w)))"

text \<open>A transition table counts its children.\<close>

definition table_ok :: "hkobject \<Rightarrow> bool" where
  "table_ok ob \<longleftrightarrow>
     counter ob = int (length (transitions ob)) \<and> numelements ob = py_str (counter ob)"

definition tables_ok :: "world \<Rightarrow> bool" where
  "tables_ok w \<longleftrightarrow>
     (\<forall>a < length (data w).
        class_of (data w ! a) = ''hkbStateMachineTransitionInfoArray'' \<longrightarrow> table_ok (data w ! a))"

text \<open>A trigger table kept by a state is an object of the section.\<close>

definition triggers_valid :: "world \<Rightarrow> bool" where
  "triggers_valid w \<longleftrightarrow>
     (\<forall>a < length (data w). \<forall>c.
        hkbClipTriggerArray_of (data w ! a) = Some c \<longrightarrow> c < length (data w))"

text \<open>
  The entries of the state list: the state carries the name and the position of its
  entry and refers to the generator and the transition table of the entry; names and
  tables are not shared between entries.
\<close>

definition entry_ok :: "world \<Rightarrow> nat \<Rightarrow> state_entry \<Rightarrow> bool" where
  "entry_ok w i e \<longleftrightarrow>
     entry_state e < length (data w) \<and> entry_generator e < length (data w)
     \<and> entry_transitions e < length (data w)
     \<and> class_of (data w ! entry_state e) = ''hkbStateMachineStateInfo''
     \<and> class_of (data w ! entry_transitions e) = ''hkbStateMachineTransitionInfoArray''
     \<and> stateName (data w ! entry_state e) = entry_name e
     \<and> stateIdx (data w ! entry_state e) = int i
     \<and> transitions_ref (data w ! entry_state e) = tag (data w ! entry_transitions e)
     \<and> generator_ref (data w ! entry_state e) = tag (data w ! entry_generator e)"

definition states_ok :: "BehaviorFile \<Rightarrow> world \<Rightarrow> bool" where
  "states_ok bf w \<longleftrightarrow>
     nStates bf = int (length (list_of_states w))
     \<and> distinct (map entry_name (list_of_states w))
     \<and> distinct (map entry_transitions (list_of_states w))
     \<and> (\<forall>i < length (list_of_states w). entry_ok w i (list_of_states w ! i))"

text \<open>The wildcard table, when there is one, is a table of its own.\<close>

definition wild_ok :: "BehaviorFile \<Rightarrow> world \<Rightarrow> bool" where
  "wild_ok bf w \<longleftrightarrow>
     (\<forall>wt. wildcardtransitions bf = Some wt \<longrightarrow>
        wt < length (data w)
        \<and> class_of (data w ! wt) = ''hkbStateMachineTransitionInfoArray''
        \<and> wt \<notin> set (map entry_transitions (list_of_states w)))"

definition build_inv :: "BehaviorFile \<Rightarrow> world \<Rightarrow> bool" where
  "build_inv bf w \<longleftrightarrow>
     tags_ok bf w \<and> attrs bf w \<and> events_ok bf w \<and> draft w \<and> refs_ok w \<and> tables_ok w
     \<and> triggers_valid w \<and> states_ok bf w \<and> wild_ok bf w"

text \<open>The number of transitions of every object of the section, in order.\<close>

definition sizes :: "world \<Rightarrow> nat list" where
  "sizes w = map (\<lambda>ob. length (transitions ob)) (data w)"

text \<open>No transition was added: old objects keep their number, new objects have none.\<close>

definition steady :: "world \<Rightarrow> world \<Rightarrow> bool" where
  "steady w w' \<longleftrightarrow> (\<exists>k. sizes w' = sizes w @ replicate k 0)"

section \<open>What a process leaves in the data section\<close>

text \<open>
  The elements added to the data section between two worlds. Every constructor adds its
  element and stamps on it the tag it gets from \<^verbatim>\<open>_OCnext\<close>, and nothing else calls
  \<^verbatim>\<open>_OCnext\<close>; the one element with another tag is the root container of \<^verbatim>\<open>__finalize\<close>,
  whose tag is formatted from \<open>root_index\<close>. So the tags \<^verbatim>\<open>_OCnext\<close> returned between two
  worlds are the tags of the added elements other than root containers, in order.
\<close>

definition added :: "world \<Rightarrow> world \<Rightarrow> hkobject list" where
  "added w w' = drop (length (data w)) (data w')"

definition issued :: "world \<Rightarrow> world \<Rightarrow> string list" where
  "issued w w' =
     map tag (filter (\<lambda>ob. class_of ob \<noteq> ''hkRootLevelContainer'') (added w w'))"

text \<open>The actions of instance \<open>i\<close>: its creation and the calls on it.\<close>

fun acts_on :: "nat \<Rightarrow> action \<Rightarrow> BehaviorFile list \<Rightarrow> bool" where
  "acts_on i Create bfs = (i = length bfs)"
| "acts_on i (Invoke j c) bfs = (i = j \<and> j < length bfs)"

text \<open>The tags issued to instance \<open>i\<close> along a run, in the order of issue.\<close>

fun issued_by :: "nat \<Rightarrow> action list \<Rightarrow> BehaviorFile list \<times> world \<Rightarrow> string list" where
  "issued_by i [] s = []"
| "issued_by i (a # as) s =
     (if acts_on i a (fst s) then issued (snd s) (snd (step a s)) else [])
     @ issued_by i as (step a s)"

text \<open>The number of finalize steps of a run: the \<^verbatim>\<open>export\<close> calls on an existing instance.\<close>

fun finalizes :: "action list \<Rightarrow> BehaviorFile list \<times> world \<Rightarrow> nat" where
  "finalizes [] s = 0"
| "finalizes (a # as) s =
     (case a of
        Invoke i Export \<Rightarrow> (if i < length (fst s) then 1 else 0)
      | _ \<Rightarrow> 0)
     + finalizes as (step a s)"

definition count_class :: "string \<Rightarrow> world \<Rightarrow> nat" where
  "count_class c w = length (filter (\<lambda>ob. class_of ob = c) (data w))"

text \<open>
  A call of the mutation API adds elements whose tags are the next numbers of the
  instance, and no state machine, behavior graph or root container.
\<close>

definition builds :: "BehaviorFile \<Rightarrow> world \<Rightarrow> BehaviorFile \<Rightarrow> world \<Rightarrow> bool" where
  "builds bf w bf' w' \<longleftrightarrow>
     object_counter bf \<le> object_counter bf'
     \<and> map tag (data w') =
         map tag (data w) @ map format_tag [object_counter bf + 1 .. object_counter bf']
     \<and> (\<exists>cs. map class_of (data w') = map class_of (data w) @ cs
            \<and> set cs \<inter> final_classes = {})"

text \<open>
  The counter of instance \<open>i\<close>; before its creation, the class attribute it will start
  from.
\<close>

definition counter_at :: "BehaviorFile list \<Rightarrow> nat \<Rightarrow> int" where
  "counter_at bfs i = (if i < length bfs then object_counter (bfs ! i) else root_index)"

text \<open>Every instance has the graph data that \<^verbatim>\<open>__init__\<close> created.\<close>

definition ready :: "BehaviorFile list \<Rightarrow> bool" where
  "ready bfs \<longleftrightarrow> (\<forall>bf \<in> set bfs. hkbBehaviorGraphData bf \<noteq> None)"

section \<open>Tags are read back\<close>

lemma digit_val_digit_char: "d < 10 \<Longrightarrow> digit_val (digit_char d) = d"
  by (simp add: digit_val_def digit_char_def)

lemma digit_char_not_minus: "d < 10 \<Longrightarrow> digit_char d \<noteq> CHR ''-''"
proof
  assume d: "d < 10" and e: "digit_char d = CHR ''-''"
  from e have "(of_char (digit_char d) :: nat) = of_char CHR ''-''" by simp
  with d show False by (simp add: digit_char_def)
qed

lemma nat_of_digits_snoc: "nat_of_digits (s @ [c]) = 10 * nat_of_digits s + digit_val c"
  by (simp add: nat_of_digits_def)

lemma nat_of_digits_str_nat: "nat_of_digits (str_nat n) = n"
proof (induction n rule: str_nat.induct)
  case (1 n)
  show ?case
  proof (cases "n < 10")
    case True
    then show ?thesis
      by (subst str_nat.simps) (simp add: nat_of_digits_def digit_val_digit_char)
  next
    case False
    with 1 have "nat_of_digits (str_nat (n div 10)) = n div 10" by simp
    with False show ?thesis
      by (subst str_nat.simps) (simp add: nat_of_digits_snoc digit_val_digit_char)
  qed
qed

lemma str_nat_no_minus: "CHR ''-'' \<notin> set (str_nat n)"
proof (induction n rule: str_nat.induct)
  case (1 n)
  have m: "digit_char (n mod 10) \<noteq> CHR ''-''" by (simp add: digit_char_not_minus)
  show ?case
  proof (cases "n < 10")
    case True
    then show ?thesis
      using digit_char_not_minus [of n] by (subst str_nat.simps) auto
  next
    case False
    with 1 have "CHR ''-'' \<notin> set (str_nat (n div 10))" by simp
    with False m show ?thesis
      by (subst str_nat.simps) auto
  qed
qed

lemma str_nat_not_Nil: "str_nat n \<noteq> []"
  by (subst str_nat.simps) simp

lemma nat_of_digits_zfill: "nat_of_digits (zfill k s) = nat_of_digits s"
proof -
  have "foldl (\<lambda>a c. 10 * a + digit_val c) 0 (replicate m CHR ''0'') = 0" for m
    by (induction m) (simp_all add: digit_val_def)
  then show ?thesis by (simp add: nat_of_digits_def zfill_def)
qed

lemma zfill_no_minus: "c \<in> set (zfill k (str_nat n)) \<Longrightarrow> c \<noteq> CHR ''-''"
  using str_nat_no_minus [of n] by (auto simp: zfill_def)

lemma zfill_not_Nil: "zfill k (str_nat n) \<noteq> []"
  by (simp add: zfill_def str_nat_not_Nil)

lemma tag_number_format_tag: "tag_number (format_tag i) = i"
proof (cases "i < 0")
  case True
  then show ?thesis
    by (simp add: tag_number_def format_tag_def format_04d_def nat_of_digits_zfill
        nat_of_digits_str_nat)
next
  case False
  obtain c r where s: "zfill 4 (str_nat (nat i)) = c # r"
    using zfill_not_Nil [of 4 "nat i"] by (cases "zfill 4 (str_nat (nat i))") auto
  then have "c \<in> set (zfill 4 (str_nat (nat i)))" by simp
  then have c: "c \<noteq> CHR ''-''" by (rule zfill_no_minus)
  have "nat_of_digits (c # r) = nat i"
    using s nat_of_digits_zfill [of 4 "str_nat (nat i)"] by (simp add: nat_of_digits_str_nat)
  with False c s show ?thesis
    by (simp add: tag_number_def format_tag_def format_04d_def)
qed

lemma format_tag_inj: "format_tag i = format_tag j \<Longrightarrow> i = j"
  by (metis tag_number_format_tag)

section \<open>Effects of the primitive steps\<close>

lemma OCnext_eq:
  "OCnext bf = (format_tag (object_counter bf + 1), bf\<lparr>object_counter := object_counter bf + 1\<rparr>)"
  by (simp add: OCnext_def Let_def)

lemma data_update_obj [simp]: "data (update_obj a f w) = (data w)[a := f (data w ! a)]"
  and list_of_states_update_obj [simp]: "list_of_states (update_obj a f w) = list_of_states w"
  and event_name_list_update_obj [simp]: "event_name_list (update_obj a f w) = event_name_list w"
  and sm_list_of_states_update_obj [simp]:
    "sm_list_of_states (update_obj a f w) = sm_list_of_states w"
  and log_lines_update_obj [simp]: "log_lines (update_obj a f w) = log_lines w"
  by (simp_all add: update_obj_def)

lemma data_warning [simp]: "data (warning m w) = data w"
  and list_of_states_warning [simp]: "list_of_states (warning m w) = list_of_states w"
  and event_name_list_warning [simp]: "event_name_list (warning m w) = event_name_list w"
  and sm_list_of_states_warning [simp]: "sm_list_of_states (warning m w) = sm_list_of_states w"
  and log_lines_warning [simp]: "log_lines (warning m w) = log_lines w @ [m]"
  by (simp_all add: warning_def)

lemma tag_at_warning [simp]: "tag_at (warning m w) a = tag_at w a"
  by (simp add: tag_at_def)

text \<open>No method changes the tag or the class of the object it works on.\<close>

lemma tag_updaters [simp]:
  "tag (eventInfos_append fl ob) = tag ob"
  "tag (eventNames_append e ob) = tag ob"
  "tag (transitions_append ev to tr cd wc ob) = tag ob"
  "tag (triggers_set s ob) = tag ob"
  "tag (hkbClipTriggerArray_set c ob) = tag ob"
  "tag (triggers_append lt ev rel ob) = tag ob"
  "tag (triggers_unfinished ob) = tag ob"
  "tag (events_append s ob) = tag ob"
  "tag (states_set l ob) = tag ob"
  by (cases ob; simp)+

lemma class_of_updaters [simp]:
  "class_of (eventInfos_append fl ob) = class_of ob"
  "class_of (eventNames_append e ob) = class_of ob"
  "class_of (transitions_append ev to tr cd wc ob) = class_of ob"
  "class_of (triggers_set s ob) = class_of ob"
  "class_of (hkbClipTriggerArray_set c ob) = class_of ob"
  "class_of (triggers_append lt ev rel ob) = class_of ob"
  "class_of (triggers_unfinished ob) = class_of ob"
  "class_of (events_append s ob) = class_of ob"
  "class_of (states_set l ob) = class_of ob"
  by (cases ob; simp)+

lemma map_tag_list_update [simp]:
  "tag y = tag (xs ! a) \<Longrightarrow> map tag (xs[a := y]) = map tag xs"
  by (cases "a < length xs") (simp_all add: map_update list_update_same_conv list_update_beyond)

lemma map_class_of_list_update [simp]:
  "class_of y = class_of (xs ! a) \<Longrightarrow> map class_of (xs[a := y]) = map class_of xs"
  by (cases "a < length xs") (simp_all add: map_update list_update_same_conv list_update_beyond)

lemmas method_defs =
  gd_add_event_def add_transition_def set_trigger_def add_trigger_def

lemmas init_defs =
  hkbBehaviorGraphStringData_init_def hkbVariableValueSet_init_def
  hkbBehaviorGraphData_init_def hkbBlendingTransitionEffect_init_def
  hkbStateMachineTransitionInfoArray_init_def hkbClipGenerator_init_def
  BGSGamebryoSequenceGenerator_init_def hkbStateMachineStateInfo_init_def
  hkbClipTriggerArray_init_def hkbStateMachine_init_def hkbBehaviorGraph_init_def
  OCnext_eq SubElement_data_def Let_def

subsection \<open>The event index loop\<close>

lemma eventIndex_loop_None: "eventIndex_loop xs e i = None \<longleftrightarrow> e \<notin> set xs"
  by (induction xs arbitrary: i) auto

lemma eventIndex_loop_append:
  "e \<in> set xs \<Longrightarrow> eventIndex_loop (xs @ ys) e i = eventIndex_loop xs e i"
  by (induction xs arbitrary: i) auto

lemma eventIndex_loop_new:
  "e \<notin> set xs \<Longrightarrow> eventIndex_loop (xs @ [e]) e i = Some (i + length xs)"
  by (induction xs arbitrary: i) auto

lemma eventIndex_loop_Some:
  "eventIndex_loop xs e i = Some k \<Longrightarrow>
     i \<le> k \<and> k - i < length xs \<and> xs ! (k - i) = e \<and> (\<forall>j < k - i. xs ! j \<noteq> e)"
proof (induction xs arbitrary: i)
  case Nil
  then show ?case by simp
next
  case (Cons x xs)
  show ?case
  proof (cases "x = e")
    case True
    with Cons.prems show ?thesis by simp
  next
    case False
    with Cons.prems have "eventIndex_loop xs e (Suc i) = Some k" by simp
    from Cons.IH [OF this] have ih: "Suc i \<le> k" "k - Suc i < length xs"
      "xs ! (k - Suc i) = e" "\<forall>j < k - Suc i. xs ! j \<noteq> e" by auto
    then have k: "k - i = Suc (k - Suc i)" by arith
    show ?thesis
    proof (intro conjI allI impI)
      show "i \<le> k" using ih by arith
      show "k - i < length (x # xs)" using ih k by simp
      show "(x # xs) ! (k - i) = e" using ih k by simp
      fix j assume "j < k - i"
      then show "(x # xs) ! j \<noteq> e" using ih k False by (cases j) auto
    qed
  qed
qed

subsection \<open>Registering an event\<close>

lemma getOrCreateEventID_old:
  "e \<in> set (event_name_list w) \<Longrightarrow> getOrCreateEventID sd bf e w = (get_eventID e w, w)"
  by (simp add: getOrCreateEventID.simps)

lemma getOrCreateEventID_new:
  assumes "e \<notin> set (event_name_list w)" and "hkbBehaviorGraphData bf = Some gd"
  shows "getOrCreateEventID sd bf e w =
     (Inr (int (length (event_name_list w))),
      gd_add_event gd 0
        (warning (''created new event '' @ e)
           ((update_obj sd (eventNames_append e) w)
              \<lparr>event_name_list := event_name_list w @ [e]\<rparr>)))"
proof -
  let ?w1 = "warning (''created new event '' @ e)
           ((update_obj sd (eventNames_append e) w)
              \<lparr>event_name_list := event_name_list w @ [e]\<rparr>)"
  have a: "sd_add_event sd e w = (Inr (), ?w1)"
    using assms(1) by (simp add: sd_add_event_def Let_def)
  have b: "event_name_list (gd_add_event gd 0 ?w1) = event_name_list w @ [e]"
    by (simp add: gd_add_event_def)
  then have "e \<in> set (event_name_list (gd_add_event gd 0 ?w1))"
    by simp
  then have "getOrCreateEventID sd bf e (gd_add_event gd 0 ?w1)
      = (get_eventID e (gd_add_event gd 0 ?w1), gd_add_event gd 0 ?w1)"
    by (rule getOrCreateEventID_old)
  moreover have "get_eventID e (gd_add_event gd 0 ?w1) = Inr (int (length (event_name_list w)))"
    using assms(1) by (simp only: get_eventID_def b) (simp add: eventIndex_loop_new)
  ultimately have c: "getOrCreateEventID sd bf e (gd_add_event gd 0 ?w1)
      = (Inr (int (length (event_name_list w))), gd_add_event gd 0 ?w1)"
    by simp
  show ?thesis
    using assms a c by (subst getOrCreateEventID.simps) simp
qed

lemma getOrCreateEventID_no_data:
  assumes "e \<notin> set (event_name_list w)" and "hkbBehaviorGraphData bf = None"
  shows "getOrCreateEventID sd bf e w =
     (Inl AttributeError,
        warning (''created new event '' @ e)
           ((update_obj sd (eventNames_append e) w)
              \<lparr>event_name_list := event_name_list w @ [e]\<rparr>))"
  using assms by (subst getOrCreateEventID.simps) (simp add: sd_add_event_def Let_def)

lemma get_eventID_registered:
  "e \<in> set (event_name_list w) \<Longrightarrow>
     \<exists>k < length (event_name_list w). get_eventID e w = Inr (int k)
        \<and> event_name_list w ! k = e \<and> (\<forall>j < k. event_name_list w ! j \<noteq> e)"
proof -
  assume "e \<in> set (event_name_list w)"
  then obtain k where k: "eventIndex_loop (event_name_list w) e 0 = Some k"
    using eventIndex_loop_None [of "event_name_list w" e 0] by auto
  from eventIndex_loop_Some [OF this] k show ?thesis
    by (auto simp: get_eventID_def)
qed

section \<open>Frames\<close>

lemma same_objects_refl [simp]: "same_objects w w"
  by (simp add: same_objects_def)

lemma same_objects_length: "same_objects w w' \<Longrightarrow> length (data w') = length (data w)"
  by (metis length_map same_objects_def)

lemma same_objects_trans:
  assumes "same_objects w w1" and "same_objects w1 w2"
  shows "same_objects w w2"
proof -
  have len: "length (data w1) = length (data w)"
    using assms(1) by (metis length_map same_objects_def)
  have "data w2 ! a = data w ! a"
    if "a < length (data w)" "class_of (data w ! a) \<notin> event_classes" for a
  proof -
    from assms(1) that have e: "data w1 ! a = data w ! a" by (simp add: same_objects_def)
    with assms(2) that len show ?thesis by (simp add: same_objects_def)
  qed
  with assms show ?thesis
    by (auto simp: same_objects_def)
qed

lemma same_objects_update_obj:
  assumes s: "same_objects w w'"
    and t: "\<And>ob. tag (f ob) = tag ob" and c: "\<And>ob. class_of (f ob) = class_of ob"
    and r: "\<And>ob. refs (f ob) = refs ob"
    and i: "\<And>ob. class_of ob \<notin> event_classes \<Longrightarrow> f ob = ob"
  shows "same_objects w (update_obj a f w')"
proof -
  have len: "length (data w') = length (data w)"
    using s by (metis length_map same_objects_def)
  have r': "map refs ((data w')[a := f (data w' ! a)]) = map refs (data w')"
    by (cases "a < length (data w')")
       (simp_all add: map_update list_update_same_conv list_update_beyond r)
  have "(data w')[a := f (data w' ! a)] ! b = data w ! b"
    if "b < length (data w)" "class_of (data w ! b) \<notin> event_classes" for b
  proof -
    from s that have e: "data w' ! b = data w ! b" by (simp add: same_objects_def)
    with that i [of "data w' ! b"] len show ?thesis
      by (cases "b = a") simp_all
  qed
  with s r' show ?thesis
    by (simp add: same_objects_def t c)
qed

lemma refs_event_updaters [simp]:
  "refs (eventInfos_append fl ob) = refs ob"
  "refs (eventNames_append e ob) = refs ob"
  "refs (events_append x ob) = refs ob"
  by (cases ob; simp)+

lemma event_updaters_other_class:
  "class_of ob \<notin> event_classes \<Longrightarrow> eventInfos_append fl ob = ob"
  "class_of ob \<notin> event_classes \<Longrightarrow> eventNames_append e ob = ob"
  "class_of ob \<notin> event_classes \<Longrightarrow> events_append x ob = ob"
  by (cases ob; simp add: event_classes_def)+

lemma same_objects_fields:
  "same_objects w w' \<Longrightarrow> same_objects w (w'\<lparr>event_name_list := event_name_list w' @ ys\<rparr>)"
  "same_objects w (warning m w') = same_objects w w'"
  by (auto simp: same_objects_def)

lemma getOrCreateEventID_same_objects:
  assumes "getOrCreateEventID sd bf e w = (r, w')"
  shows "same_objects w w'"
proof (cases "e \<in> set (event_name_list w)")
  case True
  with assms show ?thesis by (simp add: getOrCreateEventID_old)
next
  case False
  show ?thesis
  proof (cases "hkbBehaviorGraphData bf")
    case None
    with False assms have "w' = warning (''created new event '' @ e)
           ((update_obj sd (eventNames_append e) w)
              \<lparr>event_name_list := event_name_list w @ [e]\<rparr>)"
      by (simp add: getOrCreateEventID_no_data)
    moreover have "same_objects w (update_obj sd (eventNames_append e) w)"
      by (rule same_objects_update_obj) (simp_all add: event_updaters_other_class)
    ultimately show ?thesis
      using same_objects_fields(1) [of w "update_obj sd (eventNames_append e) w" "[e]"]
      by (simp add: same_objects_fields)
  next
    case (Some gd)
    with False assms have "w' = gd_add_event gd 0 (warning (''created new event '' @ e)
           ((update_obj sd (eventNames_append e) w)
              \<lparr>event_name_list := event_name_list w @ [e]\<rparr>))"
      by (simp add: getOrCreateEventID_new)
    moreover have "same_objects w (update_obj sd (eventNames_append e) w)"
      by (rule same_objects_update_obj) (simp_all add: event_updaters_other_class)
    then have "same_objects w (warning (''created new event '' @ e)
           ((update_obj sd (eventNames_append e) w)
              \<lparr>event_name_list := event_name_list w @ [e]\<rparr>))"
      using same_objects_fields(1) [of w "update_obj sd (eventNames_append e) w" "[e]"]
      by (simp add: same_objects_fields)
    then have "same_objects w (gd_add_event gd 0 (warning (''created new event '' @ e)
           ((update_obj sd (eventNames_append e) w)
              \<lparr>event_name_list := event_name_list w @ [e]\<rparr>)))"
      unfolding gd_add_event_def
      by (rule same_objects_update_obj) (simp_all add: event_updaters_other_class)
    ultimately show ?thesis by simp
  qed
qed

lemma events_loop_same_objects:
  "events_loop a bf evs w = (r, w') \<Longrightarrow> same_objects w w'"
proof (induction evs arbitrary: w)
  case Nil
  then show ?case by simp
next
  case (Cons e es)
  show ?case
  proof (cases "hkbBehaviorGraphStringData bf")
    case None
    with Cons.prems show ?thesis by simp
  next
    case (Some sd)
    obtain r1 w1 where g: "getOrCreateEventID sd bf e w = (r1, w1)"
      by (cases "getOrCreateEventID sd bf e w")
    then have s1: "same_objects w w1" by (rule getOrCreateEventID_same_objects)
    show ?thesis
    proof (cases r1)
      case (Inl err)
      with Cons.prems Some g s1 show ?thesis by simp
    next
      case (Inr i)
      with Cons.prems Some g
      have "events_loop a bf es (update_obj a (events_append (py_str i)) w1) = (r, w')"
        by simp
      then have "same_objects (update_obj a (events_append (py_str i)) w1) w'"
        by (rule Cons.IH)
      moreover have "same_objects w (update_obj a (events_append (py_str i)) w1)"
        using s1 by (rule same_objects_update_obj) (simp_all add: event_updaters_other_class)
      ultimately show ?thesis by (rule same_objects_trans [rotated])
    qed
  qed
qed

lemma notify_events_frame:
  assumes "notify_events ev bf w = (r, bf', w')"
  shows "bf' = bf \<and> same_objects w w'
     \<or> (bf' = bf\<lparr>object_counter := object_counter bf + 1\<rparr>
        \<and> (\<exists>ob w1. same_objects (w\<lparr>data := data w @ [ob]\<rparr>) w'
              \<and> tag ob = format_tag (object_counter bf + 1)
              \<and> class_of ob = ''hkbStateMachineEventPropertyArray''
              \<and> r \<noteq> Inr None \<and> (\<forall>a. r = Inr (Some a) \<longrightarrow> a = length (data w))))"
proof (cases "ev = EvStr ''null''")
  case True
  with assms show ?thesis by (simp add: notify_events_def)
next
  case False
  let ?evs = "case ev of EvList l \<Rightarrow> l | EvStr s \<Rightarrow> [s]"
  let ?ob = "HkbStateMachineEventPropertyArray (format_tag (object_counter bf + 1))
               (int (length ?evs)) (py_str (int (length ?evs))) []"
  let ?bf1 = "bf\<lparr>object_counter := object_counter bf + 1\<rparr>"
  obtain r2 w2 where l: "events_loop (length (data w)) ?bf1 ?evs (w\<lparr>data := data w @ [?ob]\<rparr>) = (r2, w2)"
    by (cases "events_loop (length (data w)) ?bf1 ?evs (w\<lparr>data := data w @ [?ob]\<rparr>)")
  then have s: "same_objects (w\<lparr>data := data w @ [?ob]\<rparr>) w2"
    by (rule events_loop_same_objects)
  from assms False l have "bf' = ?bf1 \<and> w' = w2 \<and> r \<noteq> Inr None
      \<and> (\<forall>a. r = Inr (Some a) \<longrightarrow> a = length (data w))"
    by (auto simp: notify_events_def hkbStateMachineEventPropertyArray_init_def init_defs
        split: sum.splits)
  with s show ?thesis by auto
qed

lemma grows_refl [simp]: "grows w w"
  by (simp add: grows_def)

lemma grows_trans: "grows w w1 \<Longrightarrow> grows w1 w2 \<Longrightarrow> grows w w2"
  unfolding grows_def by (meson prefix_order.trans)

lemma same_objects_grows: "same_objects w w' \<Longrightarrow> grows w w'"
  by (auto simp: same_objects_def grows_def)

lemma grows_warning [simp]: "grows w (warning m w') = grows w w'"
  by (simp add: grows_def)

lemma keeps_refl [simp]: "keeps bf bf"
  by (simp add: keeps_def)

lemma keeps_trans: "keeps bf bf1 \<Longrightarrow> keeps bf1 bf2 \<Longrightarrow> keeps bf bf2"
  by (auto simp: keeps_def)

lemma notify_events_grows:
  assumes "notify_events ev bf w = (r, bf', w')"
  shows "keeps bf bf' \<and> grows w w' \<and> nStates bf' = nStates bf"
  using notify_events_frame [OF assms]
  by (auto simp: keeps_def grows_def same_objects_def prefix_def)

lemma state_loop_cases:
  "state_loop es n v = (found, vars) \<Longrightarrow>
     (found \<longrightarrow> (\<exists>e \<in> set es. vars = Some e \<and> snd (snd (snd e)) = n))
     \<and> (\<not> found \<longrightarrow> vars = (if es = [] then v else Some (last es)))"
  by (induction es n v rule: state_loop.induct) (auto split: if_splits)

lemma add_state_grows:
  assumes "add_state n p l g en ex bf w = (r, bf', w')"
  shows "keeps bf bf' \<and> grows w w'"
proof (cases "(\<not> g \<and> p = ''placeholder'') \<or> name_in_project (list_of_states w) n")
  case True
  with assms show ?thesis by (auto simp: add_state_def split: if_splits)
next
  case False
  obtain tr bf1 w1 where 1: "hkbStateMachineTransitionInfoArray_init bf w = (tr, bf1, w1)"
    by (cases "hkbStateMachineTransitionInfoArray_init bf w")
  obtain gen bf2 w2 where 2:
    "(if \<not> g then hkbClipGenerator_init n p (Inl ''null'') l bf1 w1
      else BGSGamebryoSequenceGenerator_init n bf1 w1) = (gen, bf2, w2)"
    by (cases "if \<not> g then hkbClipGenerator_init n p (Inl ''null'') l bf1 w1
      else BGSGamebryoSequenceGenerator_init n bf1 w1")
  from 1 2 have a: "keeps bf bf2 \<and> grows w w2"
    by (auto simp: init_defs keeps_def grows_def split: if_splits)
  obtain r3 bf3 w3 where 3: "notify_events en bf2 w2 = (r3, bf3, w3)"
    by (cases "notify_events en bf2 w2")
  from notify_events_grows [OF 3] a have b: "keeps bf bf3 \<and> grows w w3"
    by (blast intro: keeps_trans grows_trans)
  show ?thesis
  proof (cases r3)
    case (Inl e)
    with assms False 1 2 3 b show ?thesis by (auto simp: add_state_def)
  next
    case (Inr enter)
    obtain r4 bf4 w4 where 4: "notify_events ex bf3 w3 = (r4, bf4, w4)"
      by (cases "notify_events ex bf3 w3")
    from notify_events_grows [OF 4] b have c: "keeps bf bf4 \<and> grows w w4"
      by (blast intro: keeps_trans grows_trans)
    show ?thesis
    proof (cases r4)
      case (Inl e)
      with assms False 1 2 3 4 Inr c show ?thesis by (auto simp: add_state_def)
    next
      case exit: (Inr exit)
      from assms False 1 2 3 4 Inr exit
      have "keeps bf4 bf' \<and> grows w4 w'"
        by (auto simp: add_state_def init_defs keeps_def grows_def)
      with c show ?thesis by (blast intro: keeps_trans grows_trans)
    qed
  qed
qed

lemma getOrCreateClipTriggerArray_grows:
  "getOrCreateClipTriggerArray st bf w = (c, bf', w') \<Longrightarrow> keeps bf bf' \<and> grows w w'"
  by (auto simp: getOrCreateClipTriggerArray_def init_defs keeps_def grows_def
      split: option.splits)

lemma grows_update_obj:
  "tag (f (data w' ! a)) = tag (data w' ! a) \<Longrightarrow> class_of (f (data w' ! a)) = class_of (data w' ! a)
    \<Longrightarrow> grows w (update_obj a f w') = grows w w'"
  by (simp add: grows_def)

lemma add_clip_trigger_grows:
  assumes "add_clip_trigger s e rel lt bf w = (r, bf', w')"
  shows "keeps bf bf' \<and> grows w w'"
proof -
  obtain found vars where l: "state_loop (list_of_states w) s None = (found, vars)"
    by (cases "state_loop (list_of_states w) s None")
  let ?w1 = "if found then w
             else warning (''add_clip_trigger error, state '' @ s @ '' doesnt exist'') w"
  have g1: "grows w ?w1" by simp
  show ?thesis
  proof (cases vars)
    case None
    with assms l show ?thesis by (auto simp: add_clip_trigger_def Let_def split: if_splits)
  next
    case (Some ent)
    obtain st gen tr nm where ent: "ent = (st, gen, tr, nm)" by (cases ent)
    show ?thesis
    proof (cases "isinstance_BGSGamebryoSequenceGenerator (data ?w1 ! gen)")
      case True
      with assms l Some ent show ?thesis
        by (auto simp: add_clip_trigger_def Let_def split: if_splits)
    next
      case False
      obtain c bf2 w2 where 2: "getOrCreateClipTriggerArray st bf ?w1 = (c, bf2, w2)"
        by (cases "getOrCreateClipTriggerArray st bf ?w1")
      from getOrCreateClipTriggerArray_grows [OF 2] g1
      have a: "keeps bf bf2 \<and> grows w w2" by (blast intro: grows_trans)
      show ?thesis
      proof (cases "hkbBehaviorGraphStringData bf2")
        case None
        with assms l Some ent False 2 a show ?thesis
          by (auto simp: add_clip_trigger_def Let_def split: if_splits)
      next
        case sd: (Some sd)
        obtain r3 w3 where 3: "getOrCreateEventID sd bf2 e w2 = (r3, w3)"
          by (cases "getOrCreateEventID sd bf2 e w2")
        from getOrCreateEventID_same_objects [OF 3] a have b: "grows w w3"
          by (blast intro: grows_trans same_objects_grows)
        from assms l Some ent False 2 sd 3
        have "bf' = bf2 \<and> (w' = w3 \<or> w' = update_obj c triggers_unfinished w3
            \<or> (\<exists>i. w' = set_trigger gen c (update_obj c (triggers_append lt i rel) w3)))"
          by (auto simp: add_clip_trigger_def add_trigger_def Let_def
              split: if_splits sum.splits)
        with a b show ?thesis
          by (auto simp: method_defs grows_update_obj)
      qed
    qed
  qed
qed

lemma connect_states_grows:
  assumes "connect_states s1 s2 e bf w = (r, bf', w')"
  shows "bf' = bf \<and> grows w w'"
proof (cases "s1 = s2")
  case True
  with assms show ?thesis by (simp add: connect_states_def)
next
  case False
  obtain found1 vars1 where l1: "state_loop (list_of_states w) s1 None = (found1, vars1)"
    by (cases "state_loop (list_of_states w) s1 None")
  obtain found2 vars2 where l2: "state_loop (list_of_states w) s2 None = (found2, vars2)"
    by (cases "state_loop (list_of_states w) s2 None")
  let ?w1 = "if found1 then w
             else warning (''connect_states error, state1 '' @ s1 @ '' doesnt exist'') w"
  let ?w2 = "if found2 then ?w1
             else warning (''connect_states error, state2 '' @ s2 @ '' doesnt exist'') ?w1"
  have g: "grows w ?w2" by simp
  show ?thesis
  proof (cases "hkbBehaviorGraphStringData bf")
    case None
    with assms False l1 l2 g show ?thesis
      by (auto simp: connect_states_def Let_def split: if_splits)
  next
    case (Some sd)
    obtain r3 w3 where 3: "getOrCreateEventID sd bf e ?w2 = (r3, w3)"
      by (cases "getOrCreateEventID sd bf e ?w2")
    from getOrCreateEventID_same_objects [OF 3] g have b: "grows w w3"
      by (blast intro: grows_trans same_objects_grows)
    from assms False l1 l2 Some 3
    have "bf' = bf \<and> (w' = w3 \<or> (\<exists>a i j t m. w' = warning m (add_transition a i j t ''null'' False w3)))"
      by (simp add: connect_states_def Let_def split: if_splits sum.splits option.splits prod.splits)
         blast+
    with b show ?thesis
      by (auto simp: method_defs grows_update_obj)
  qed
qed

lemma add_wildcard_grows:
  assumes "add_wildcard s e bf w = (r, bf', w')"
  shows "keeps bf bf' \<and> grows w w'"
proof -
  obtain found vars where l: "state_loop (list_of_states w) s None = (found, vars)"
    by (cases "state_loop (list_of_states w) s None")
  show ?thesis
  proof (cases "found \<and> vars \<noteq> None \<and> hkbBehaviorGraphStringData bf \<noteq> None")
    case False
    with assms l show ?thesis
      by (auto simp: add_wildcard_def split: bool.splits option.splits)
  next
    case True
    then obtain sd where sd: "hkbBehaviorGraphStringData bf = Some sd" by auto
    obtain r1 w1 where 1: "getOrCreateEventID sd bf e w = (r1, w1)"
      by (cases "getOrCreateEventID sd bf e w")
    from getOrCreateEventID_same_objects [OF 1] have b: "grows w w1"
      by (rule same_objects_grows)
    obtain wt bf2 w2 where 2: "getOrCreatewildcardtransitions bf w1 = (wt, bf2, w2)"
      by (cases "getOrCreatewildcardtransitions bf w1")
    then have c: "keeps bf bf2 \<and> grows w1 w2"
      by (auto simp: getOrCreatewildcardtransitions_def init_defs keeps_def grows_def
          split: option.splits)
    from b c have d: "keeps bf bf2 \<and> grows w w2" by (blast intro: grows_trans)
    from True obtain ent where vars: "vars = Some ent" by auto
    obtain st gen tr nm where ent: "ent = (st, gen, tr, nm)" by (cases ent)
    show ?thesis
    proof (cases r1)
      case (Inl err)
      with assms l True sd 1 vars ent b show ?thesis by (simp add: add_wildcard_def)
    next
      case (Inr i)
      show ?thesis
      proof (cases "blend_effect bf2")
        case None
        with assms l True sd 1 2 vars ent Inr d show ?thesis by (simp add: add_wildcard_def)
      next
        case (Some be)
        with assms l True sd 1 2 vars ent Inr d show ?thesis
          by (auto simp: add_wildcard_def Let_def method_defs grows_update_obj)
      qed
    qed
  qed
qed

lemma run_op_grows: "run_op x bf w = (r, bf', w') \<Longrightarrow> keeps bf bf' \<and> grows w w'"
  by (cases x)
     (auto dest: add_state_grows add_clip_trigger_grows connect_states_grows add_wildcard_grows)

lemma run_ops_grows: "run_ops xs (bf, w) = (bf', w') \<Longrightarrow> keeps bf bf' \<and> grows w w'"
proof (induction xs arbitrary: bf w)
  case Nil
  then show ?case by simp
next
  case (Cons x xs)
  obtain r bf1 w1 where 1: "run_op x bf w = (r, bf1, w1)"
    by (cases "run_op x bf w")
  with Cons.prems have "run_ops xs (bf1, w1) = (bf', w')" by simp
  from Cons.IH [OF this] run_op_grows [OF 1] show ?case
    by (blast intro: keeps_trans grows_trans)
qed

subsection \<open>Looking a state up by name\<close>

lemma name_in_project_iff:
  "name_in_project es n \<longleftrightarrow> n \<in> set (map (\<lambda>e. snd (snd (snd e))) es)"
  by (induction es n rule: name_in_project.induct) auto

lemma state_loop_found:
  "state_loop (es @ (st, gen, tr, n) # es') n v = (True, Some (st, gen, tr, n))"
  if "\<not> name_in_project es n"
  using that by (induction es n v rule: state_loop.induct) (auto split: if_splits)

lemma grows_prefix_states:
  "grows w w' \<Longrightarrow> \<exists>ys. list_of_states w' = list_of_states w @ ys"
  by (auto simp: grows_def prefix_def)

lemma grows_class_of:
  assumes "grows w w'" and "a < length (data w)"
  shows "class_of (data w' ! a) = class_of (data w ! a) \<and> a < length (data w')"
proof -
  from assms(1) obtain ys where ys: "map class_of (data w') = map class_of (data w) @ ys"
    by (auto simp: grows_def prefix_def)
  then have len: "length (data w') = length (data w) + length ys"
    by (metis length_append length_map)
  with assms(2) have a: "a < length (data w')" by simp
  have "class_of (data w' ! a) = map class_of (data w') ! a" using a by simp
  also have "\<dots> = map class_of (data w) ! a" using ys assms(2) by (simp add: nth_append)
  also have "\<dots> = class_of (data w ! a)" using assms(2) by simp
  finally show ?thesis using a by simp
qed

lemma isinstance_BGSGamebryoSequenceGenerator_iff:
  "isinstance_BGSGamebryoSequenceGenerator ob \<longleftrightarrow> class_of ob = ''BGSGamebryoSequenceGenerator''"
  by (cases ob) simp_all

lemma add_state_legacy_registers:
  assumes free: "\<not> name_in_project (list_of_states w) n"
    and ok: "add_state n p l True en ex bf w = (Inr (), bf', w')"
  shows "\<exists>st. list_of_states w' = list_of_states w @ [(st, Suc (length (data w)), length (data w), n)]
           \<and> Suc (length (data w)) < length (data w')
           \<and> class_of (data w' ! Suc (length (data w))) = ''BGSGamebryoSequenceGenerator''"
proof -
  let ?bf1 = "bf\<lparr>object_counter := object_counter bf + 1\<rparr>"
  let ?bf2 = "bf\<lparr>object_counter := object_counter bf + 1 + 1\<rparr>"
  let ?w2 = "w\<lparr>data := data w @
      [HkbStateMachineTransitionInfoArray (format_tag (object_counter bf + 1)) 0 (py_str 0) [],
       BGSGamebryoSequenceGenerator (format_tag (object_counter bf + 1 + 1)) (n @ ''Sequence'') n]\<rparr>"
  obtain r3 bf3 w3 where 3: "notify_events en ?bf2 ?w2 = (r3, bf3, w3)"
    by (cases "notify_events en ?bf2 ?w2")
  obtain r4 bf4 w4 where 4: "notify_events ex bf3 w3 = (r4, bf4, w4)"
    by (cases "notify_events ex bf3 w3")
  from notify_events_grows [OF 3] notify_events_grows [OF 4]
  have g: "grows ?w2 w4" by (blast intro: grows_trans)
  have a: "Suc (length (data w)) < length (data ?w2)" by simp
  from grows_class_of [OF g a]
  have c: "class_of (data w4 ! Suc (length (data w))) = ''BGSGamebryoSequenceGenerator''"
    and len: "Suc (length (data w)) < length (data w4)"
    by (simp_all add: nth_append)
  from notify_events_frame [OF 3] notify_events_frame [OF 4]
  have l: "list_of_states w4 = list_of_states w"
    by (auto simp: same_objects_def)
  from ok free 3 4 obtain en' ex' where
    w': "w' = warning (''added state '' @ n @ '' with state ID ''
               @ py_str (stateIdx (data (snd (snd (hkbStateMachineStateInfo_init
                     (Suc (length (data w))) (length (data w)) n (nStates bf4) en' ex' bf4 w4))
                   \<lparr>list_of_states := list_of_states w4 @
                       [(length (data w4), Suc (length (data w)), length (data w), n)]\<rparr>)
                 ! length (data w4))) @ '' to project'')
            (snd (snd (hkbStateMachineStateInfo_init
                     (Suc (length (data w))) (length (data w)) n (nStates bf4) en' ex' bf4 w4))
               \<lparr>list_of_states := list_of_states w4 @
                   [(length (data w4), Suc (length (data w)), length (data w), n)]\<rparr>)"
    by (auto simp: add_state_def init_defs split: sum.splits)
  show ?thesis
    using c len l by (subst w')+ (auto simp: init_defs nth_append)
qed

section \<open>A new instance\<close>

lemma new_BehaviorFile_eq:
  "new_BehaviorFile w =
     (Inr \<lparr>object_counter = 55, nStates = 0,
            hkbBehaviorGraphStringData = Some (length (data w)),
            hkbVariableValueSet = Some (length (data w) + 1),
            hkbBehaviorGraphData = Some (length (data w) + 2),
            blend_effect = Some (length (data w) + 3),
            wildcardtransitions = None, hkbStateMachineObj = None,
            hkbBehaviorGraphObj = None\<rparr>,
      w\<lparr>data := data w @
          [HkbBehaviorGraphStringData (format_tag 52) 0 (py_str 0) [],
           HkbVariableValueSet (format_tag 53),
           HkbBehaviorGraphData (format_tag 54) 0 (py_str 0) []
             (format_tag 53) (format_tag 52),
           HkbBlendingTransitionEffect (format_tag 55) ''ZeroDuration'']\<rparr>)"
  by (simp add: new_BehaviorFile_def init_defs tag_at_def nth_append root_index_def)

lemma script_Some: "\<exists>bf w. script ops = Some (bf, w)"
proof -
  obtain s where "script ops = Some s"
    by (simp add: script_def new_BehaviorFile_eq)
  then show ?thesis by (cases s) auto
qed

section \<open>Steps that keep the invariant\<close>

subsection \<open>Logging\<close>

lemma tags_ok_warning [simp]: "tags_ok bf (warning m w) = tags_ok bf w"
  by (simp add: tags_ok_def)
lemma attrs_warning [simp]: "attrs bf (warning m w) = attrs bf w"
  by (simp add: attrs_def)
lemma events_ok_warning [simp]: "events_ok bf (warning m w) = events_ok bf w"
  by (simp add: events_ok_def)
lemma draft_warning [simp]: "draft (warning m w) = draft w"
  by (simp add: draft_def)
lemma refs_ok_warning [simp]: "refs_ok (warning m w) = refs_ok w"
  by (simp add: refs_ok_def)
lemma tables_ok_warning [simp]: "tables_ok (warning m w) = tables_ok w"
  by (simp add: tables_ok_def)
lemma triggers_valid_warning [simp]: "triggers_valid (warning m w) = triggers_valid w"
  by (simp add: triggers_valid_def)
lemma entry_ok_warning [simp]: "entry_ok (warning m w) i e = entry_ok w i e"
  by (simp add: entry_ok_def)
lemma states_ok_warning [simp]: "states_ok bf (warning m w) = states_ok bf w"
  by (simp add: states_ok_def)
lemma wild_ok_warning [simp]: "wild_ok bf (warning m w) = wild_ok bf w"
  by (simp add: wild_ok_def)

lemma inv_warning [simp]: "build_inv bf (warning m w) = build_inv bf w"
  by (simp add: build_inv_def)

subsection \<open>A new object\<close>

lemma tags_ok_alloc:
  assumes a: "tags_ok bf w" and t: "tag ob = format_tag (object_counter bf + 1)"
  shows "tags_ok (bf\<lparr>object_counter := object_counter bf + 1\<rparr>) (w\<lparr>data := data w @ [ob]\<rparr>)"
proof -
  from a have "root_index + 1 \<le> object_counter bf + 1" by (simp add: tags_ok_def)
  then have "[root_index + 1 .. object_counter bf + 1]
      = [root_index + 1 .. object_counter bf] @ [object_counter bf + 1]"
    using upto_rec2 [of "root_index + 1" "object_counter bf + 1"] by simp
  with a t show ?thesis by (simp add: tags_ok_def)
qed

lemma attrs_alloc:
  "attrs bf w \<Longrightarrow> attrs (bf\<lparr>object_counter := c\<rparr>) (w\<lparr>data := data w @ [ob]\<rparr>)"
  unfolding attrs_def by (auto simp: nth_append less_Suc_eq)

lemma events_ok_alloc:
  "attrs bf w \<Longrightarrow> events_ok bf w \<Longrightarrow>
     events_ok (bf\<lparr>object_counter := c\<rparr>) (w\<lparr>data := data w @ [ob]\<rparr>)"
  unfolding attrs_def events_ok_def by (auto simp: nth_append less_Suc_eq)

lemma draft_alloc:
  "draft w \<Longrightarrow> class_of ob \<notin> final_classes \<Longrightarrow> draft (w\<lparr>data := data w @ [ob]\<rparr>)"
  by (simp add: draft_def)

lemma refs_ok_alloc:
  "refs_ok w \<Longrightarrow> \<forall>r \<in> set (refs ob). r = ''null'' \<or> r \<in> set (map tag (data w)) \<or> r = tag ob \<Longrightarrow>
     refs_ok (w\<lparr>data := data w @ [ob]\<rparr>)"
  unfolding refs_ok_def by (simp; blast)

lemma tables_ok_alloc:
  "tables_ok w \<Longrightarrow> (class_of ob = ''hkbStateMachineTransitionInfoArray'' \<longrightarrow> table_ok ob) \<Longrightarrow>
     tables_ok (w\<lparr>data := data w @ [ob]\<rparr>)"
  unfolding tables_ok_def by (simp add: nth_append less_Suc_eq)

lemma triggers_valid_alloc:
  "triggers_valid w \<Longrightarrow> hkbClipTriggerArray_of ob = None \<Longrightarrow>
     triggers_valid (w\<lparr>data := data w @ [ob]\<rparr>)"
  unfolding triggers_valid_def by (auto simp: nth_append less_Suc_eq)

lemma entry_ok_alloc: "entry_ok w i e \<Longrightarrow> entry_ok (w\<lparr>data := data w @ [ob]\<rparr>) i e"
  by (simp add: entry_ok_def nth_append)

lemma states_ok_alloc:
  "states_ok bf w \<Longrightarrow> states_ok (bf\<lparr>object_counter := c\<rparr>) (w\<lparr>data := data w @ [ob]\<rparr>)"
  by (simp add: states_ok_def entry_ok_alloc)

lemma wild_ok_alloc:
  "wild_ok bf w \<Longrightarrow> wild_ok (bf\<lparr>object_counter := c\<rparr>) (w\<lparr>data := data w @ [ob]\<rparr>)"
  unfolding wild_ok_def by (auto simp: nth_append less_Suc_eq)

lemma inv_alloc:
  assumes "build_inv bf w"
    and "tag ob = format_tag (object_counter bf + 1)"
    and "class_of ob \<notin> final_classes"
    and "\<forall>r \<in> set (refs ob). r = ''null'' \<or> r \<in> set (map tag (data w)) \<or> r = tag ob"
    and "class_of ob = ''hkbStateMachineTransitionInfoArray'' \<longrightarrow> table_ok ob"
    and "hkbClipTriggerArray_of ob = None"
  shows "build_inv (bf\<lparr>object_counter := object_counter bf + 1\<rparr>) (w\<lparr>data := data w @ [ob]\<rparr>)"
  using assms unfolding build_inv_def
  by (intro conjI tags_ok_alloc attrs_alloc events_ok_alloc draft_alloc refs_ok_alloc
      tables_ok_alloc triggers_valid_alloc states_ok_alloc wild_ok_alloc) simp_all

subsection \<open>A method call on an object\<close>

lemma inv_update_obj:
  assumes i: "build_inv bf w"
    and tg: "\<And>ob. tag (u ob) = tag ob"
    and cl: "\<And>ob. class_of (u ob) = class_of ob"
    and ev: "\<And>ob. class_of ob = ''hkbBehaviorGraphStringData''
                \<or> class_of ob = ''hkbBehaviorGraphData'' \<Longrightarrow> u ob = ob"
    and st: "\<And>ob. stateName (u ob) = stateName ob \<and> stateIdx (u ob) = stateIdx ob
               \<and> transitions_ref (u ob) = transitions_ref ob
               \<and> generator_ref (u ob) = generator_ref ob"
    and rf: "a < length (data w) \<Longrightarrow>
               \<forall>r \<in> set (refs (u (data w ! a))). r = ''null'' \<or> r \<in> set (map tag (data w))"
    and tb: "a < length (data w) \<Longrightarrow> class_of (data w ! a) = ''hkbStateMachineTransitionInfoArray''
               \<Longrightarrow> table_ok (data w ! a) \<Longrightarrow> table_ok (u (data w ! a))"
    and tr: "a < length (data w) \<Longrightarrow>
               \<forall>c. hkbClipTriggerArray_of (u (data w ! a)) = Some c \<longrightarrow> c < length (data w)"
  shows "build_inv bf (update_obj a u w)"
proof (cases "a < length (data w)")
  case False
  then have "update_obj a u w = w" by (simp add: update_obj_def list_update_beyond)
  with i show ?thesis by simp
next
  case True
  let ?w = "update_obj a u w"
  have n: "data ?w ! b = (if b = a then u (data w ! a) else data w ! b)" for b
    using True by simp
  have len: "length (data ?w) = length (data w)" by simp
  have mt: "map tag (data ?w) = map tag (data w)" by (simp add: tg)
  have mc: "map class_of (data ?w) = map class_of (data w)" by (simp add: cl)
  have c: "class_of (data ?w ! b) = class_of (data w ! b)" for b
    by (simp only: n) (simp add: cl)
  have t: "tag (data ?w ! b) = tag (data w ! b)" for b
    by (simp only: n) (simp add: tg)
  have "tags_ok bf ?w" using i mt by (simp add: build_inv_def tags_ok_def)
  moreover have at: "attrs bf ?w"
    using i unfolding build_inv_def attrs_def by (simp only: len c) simp
  moreover have "events_ok bf ?w"
  proof -
    have "data ?w ! b = data w ! b"
      if "class_of (data w ! b) = ''hkbBehaviorGraphStringData''
          \<or> class_of (data w ! b) = ''hkbBehaviorGraphData''" for b
      using that ev [of "data w ! a"] by (simp only: n) auto
    moreover from i have "\<forall>sd. hkbBehaviorGraphStringData bf = Some sd \<longrightarrow>
        class_of (data w ! sd) = ''hkbBehaviorGraphStringData''"
      and "\<forall>gd. hkbBehaviorGraphData bf = Some gd \<longrightarrow>
        class_of (data w ! gd) = ''hkbBehaviorGraphData''"
      by (simp_all add: build_inv_def attrs_def)
    ultimately show ?thesis
      using i by (simp add: build_inv_def events_ok_def)
  qed
  moreover have "draft ?w" using i by (simp add: build_inv_def draft_def mc del: data_update_obj)
  moreover have "refs_ok ?w"
  proof -
    have "set (map refs (data ?w)) \<subseteq> insert (refs (u (data w ! a))) (set (map refs (data w)))"
      using set_update_subset_insert [of "map refs (data w)" a "refs (u (data w ! a))"]
      by (simp add: map_update)
    with rf [OF True] i show ?thesis
      unfolding build_inv_def refs_ok_def mt by blast
  qed
  moreover have "tables_ok ?w"
  proof -
    have "table_ok (data ?w ! b)"
      if "b < length (data w)" "class_of (data w ! b) = ''hkbStateMachineTransitionInfoArray''"
      for b
    proof -
      from i that have o: "table_ok (data w ! b)" by (simp add: build_inv_def tables_ok_def)
      show ?thesis
      proof (cases "b = a")
        case True
        with o that tb show ?thesis by (simp only: n) simp
      next
        case False
        with o show ?thesis by (simp only: n) simp
      qed
    qed
    then show ?thesis unfolding tables_ok_def len c by blast
  qed
  moreover have "triggers_valid ?w"
  proof -
    have "x < length (data w)"
      if "b < length (data w)" "hkbClipTriggerArray_of (data ?w ! b) = Some x" for b x
    proof (cases "b = a")
      case True
      with that tr [OF \<open>a < length (data w)\<close>] show ?thesis by (simp only: n) simp
    next
      case False
      with that i show ?thesis by (simp only: n) (simp add: build_inv_def triggers_valid_def)
    qed
    then show ?thesis unfolding triggers_valid_def len by blast
  qed
  moreover have "states_ok bf ?w"
  proof -
    have "entry_ok ?w k e = entry_ok w k e" for k e
      unfolding entry_ok_def len c t
      by (simp only: n) (simp add: st)
    with i show ?thesis by (simp add: build_inv_def states_ok_def)
  qed
  moreover have "wild_ok bf ?w"
    using i unfolding build_inv_def wild_ok_def len c by simp
  ultimately show ?thesis by (simp add: build_inv_def)
qed

lemma updaters_event_classes:
  "class_of ob = ''hkbBehaviorGraphStringData'' \<or> class_of ob = ''hkbBehaviorGraphData''
     \<Longrightarrow> transitions_append ev to t c wc ob = ob"
  "class_of ob = ''hkbBehaviorGraphStringData'' \<or> class_of ob = ''hkbBehaviorGraphData''
     \<Longrightarrow> triggers_set s ob = ob"
  "class_of ob = ''hkbBehaviorGraphStringData'' \<or> class_of ob = ''hkbBehaviorGraphData''
     \<Longrightarrow> hkbClipTriggerArray_set a ob = ob"
  "class_of ob = ''hkbBehaviorGraphStringData'' \<or> class_of ob = ''hkbBehaviorGraphData''
     \<Longrightarrow> triggers_append lt i rel ob = ob"
  "class_of ob = ''hkbBehaviorGraphStringData'' \<or> class_of ob = ''hkbBehaviorGraphData''
     \<Longrightarrow> triggers_unfinished ob = ob"
  "class_of ob = ''hkbBehaviorGraphStringData'' \<or> class_of ob = ''hkbBehaviorGraphData''
     \<Longrightarrow> events_append x ob = ob"
  by (cases ob; simp)+

lemma state_views_updaters [simp]:
  "stateName (transitions_append ev to t c wc ob) = stateName ob"
  "stateIdx (transitions_append ev to t c wc ob) = stateIdx ob"
  "transitions_ref (transitions_append ev to t c wc ob) = transitions_ref ob"
  "generator_ref (transitions_append ev to t c wc ob) = generator_ref ob"
  "hkbClipTriggerArray_of (transitions_append ev to t c wc ob) = hkbClipTriggerArray_of ob"
  "stateName (triggers_set s ob) = stateName ob"
  "stateIdx (triggers_set s ob) = stateIdx ob"
  "transitions_ref (triggers_set s ob) = transitions_ref ob"
  "generator_ref (triggers_set s ob) = generator_ref ob"
  "hkbClipTriggerArray_of (triggers_set s ob) = hkbClipTriggerArray_of ob"
  "stateName (hkbClipTriggerArray_set a ob) = stateName ob"
  "stateIdx (hkbClipTriggerArray_set a ob) = stateIdx ob"
  "transitions_ref (hkbClipTriggerArray_set a ob) = transitions_ref ob"
  "generator_ref (hkbClipTriggerArray_set a ob) = generator_ref ob"
  "refs (hkbClipTriggerArray_set a ob) = refs ob"
  "stateName (triggers_append lt i rel ob) = stateName ob"
  "stateIdx (triggers_append lt i rel ob) = stateIdx ob"
  "transitions_ref (triggers_append lt i rel ob) = transitions_ref ob"
  "generator_ref (triggers_append lt i rel ob) = generator_ref ob"
  "hkbClipTriggerArray_of (triggers_append lt i rel ob) = hkbClipTriggerArray_of ob"
  "refs (triggers_append lt i rel ob) = refs ob"
  "stateName (triggers_unfinished ob) = stateName ob"
  "stateIdx (triggers_unfinished ob) = stateIdx ob"
  "transitions_ref (triggers_unfinished ob) = transitions_ref ob"
  "generator_ref (triggers_unfinished ob) = generator_ref ob"
  "hkbClipTriggerArray_of (triggers_unfinished ob) = hkbClipTriggerArray_of ob"
  "refs (triggers_unfinished ob) = refs ob"
  by (cases ob; simp)+

lemma refs_transitions_append:
  "set (refs (transitions_append ev to t c wc ob)) \<subseteq> set (refs ob) \<union> {t, c}"
  by (cases ob) auto

lemma refs_triggers_set: "set (refs (triggers_set s ob)) \<subseteq> set (refs ob) \<union> {s}"
  by (cases ob) auto

lemma hkbClipTriggerArray_of_set:
  "hkbClipTriggerArray_of (hkbClipTriggerArray_set a ob) = Some c \<Longrightarrow>
     c = a \<or> hkbClipTriggerArray_of ob = Some c"
  by (cases ob) auto

lemma table_ok_updaters:
  "table_ok ob \<Longrightarrow> table_ok (transitions_append ev to t c wc ob)"
  "table_ok ob \<Longrightarrow> table_ok (triggers_set s ob)"
  "table_ok ob \<Longrightarrow> table_ok (hkbClipTriggerArray_set a ob)"
  "class_of ob = ''hkbStateMachineTransitionInfoArray'' \<Longrightarrow> triggers_append lt i rel ob = ob"
  "class_of ob = ''hkbStateMachineTransitionInfoArray'' \<Longrightarrow> triggers_unfinished ob = ob"
  by (cases ob; simp add: table_ok_def)+

lemma transitions_transitions_append:
  "class_of ob = ''hkbStateMachineTransitionInfoArray'' \<Longrightarrow>
     length (transitions (transitions_append ev to t c wc ob)) = Suc (length (transitions ob))"
  by (cases ob) simp_all

lemma inv_refs_at:
  "build_inv bf w \<Longrightarrow> a < length (data w) \<Longrightarrow> r \<in> set (refs (data w ! a)) \<Longrightarrow>
     r = ''null'' \<or> r \<in> set (map tag (data w))"
  unfolding build_inv_def refs_ok_def by (metis length_map nth_map nth_mem)

lemma inv_triggers_at:
  "build_inv bf w \<Longrightarrow> a < length (data w) \<Longrightarrow> hkbClipTriggerArray_of (data w ! a) = Some c \<Longrightarrow>
     c < length (data w)"
  unfolding build_inv_def triggers_valid_def by blast

lemma inv_add_transition:
  assumes "build_inv bf w" and "t = ''null'' \<or> t \<in> set (map tag (data w))"
  shows "build_inv bf (add_transition a i j t ''null'' wc w)"
  unfolding add_transition_def
proof (rule inv_update_obj [OF assms(1)])
  show "a < length (data w) \<Longrightarrow>
     \<forall>r \<in> set (refs (transitions_append i j t ''null'' wc (data w ! a))).
        r = ''null'' \<or> r \<in> set (map tag (data w))"
    using refs_transitions_append [of i j t "''null''" wc "data w ! a"] assms(2)
      inv_refs_at [OF assms(1)] by blast
  show "a < length (data w) \<Longrightarrow>
     \<forall>c. hkbClipTriggerArray_of (transitions_append i j t ''null'' wc (data w ! a)) = Some c
        \<longrightarrow> c < length (data w)"
    using inv_triggers_at [OF assms(1)] by simp
qed (simp_all add: updaters_event_classes table_ok_updaters)

lemma inv_add_trigger:
  assumes "build_inv bf w"
  shows "build_inv bf (snd (add_trigger a lt i rel w))"
proof (cases "overflows lt")
  case True
  have "build_inv bf (update_obj a triggers_unfinished w)"
  proof (rule inv_update_obj [OF assms(1)])
    show "a < length (data w) \<Longrightarrow>
       \<forall>r \<in> set (refs (triggers_unfinished (data w ! a))).
          r = ''null'' \<or> r \<in> set (map tag (data w))"
      using inv_refs_at [OF assms(1)] by simp
    show "a < length (data w) \<Longrightarrow>
       \<forall>c. hkbClipTriggerArray_of (triggers_unfinished (data w ! a)) = Some c
          \<longrightarrow> c < length (data w)"
      using inv_triggers_at [OF assms(1)] by simp
  qed (simp_all add: updaters_event_classes table_ok_updaters)
  with True show ?thesis by (simp add: add_trigger_def)
next
  case False
  have "build_inv bf (update_obj a (triggers_append lt i rel) w)"
  proof (rule inv_update_obj [OF assms(1)])
    show "a < length (data w) \<Longrightarrow>
       \<forall>r \<in> set (refs (triggers_append lt i rel (data w ! a))).
          r = ''null'' \<or> r \<in> set (map tag (data w))"
      using inv_refs_at [OF assms(1)] by simp
    show "a < length (data w) \<Longrightarrow>
       \<forall>c. hkbClipTriggerArray_of (triggers_append lt i rel (data w ! a)) = Some c
          \<longrightarrow> c < length (data w)"
      using inv_triggers_at [OF assms(1)] by simp
  qed (simp_all add: updaters_event_classes table_ok_updaters)
  with False show ?thesis by (simp add: add_trigger_def)
qed

lemma inv_set_trigger:
  assumes "build_inv bf w" and "c < length (data w)"
  shows "build_inv bf (set_trigger a c w)"
  unfolding set_trigger_def
proof (rule inv_update_obj [OF assms(1)])
  have "tag_at w c \<in> set (map tag (data w))"
    using assms(2) by (simp add: tag_at_def)
  then show "a < length (data w) \<Longrightarrow>
     \<forall>r \<in> set (refs (triggers_set (tag_at w c) (data w ! a))).
        r = ''null'' \<or> r \<in> set (map tag (data w))"
    using refs_triggers_set [of "tag_at w c" "data w ! a"]
      inv_refs_at [OF assms(1)] by blast
  show "a < length (data w) \<Longrightarrow>
     \<forall>x. hkbClipTriggerArray_of (triggers_set (tag_at w c) (data w ! a)) = Some x
        \<longrightarrow> x < length (data w)"
    using inv_triggers_at [OF assms(1)] by simp
qed (simp_all add: updaters_event_classes table_ok_updaters)

lemma inv_hkbClipTriggerArray_set:
  assumes "build_inv bf w" and "c < length (data w)"
  shows "build_inv bf (update_obj a (hkbClipTriggerArray_set c) w)"
proof (rule inv_update_obj [OF assms(1)])
  show "a < length (data w) \<Longrightarrow>
     \<forall>r \<in> set (refs (hkbClipTriggerArray_set c (data w ! a))).
        r = ''null'' \<or> r \<in> set (map tag (data w))"
    using inv_refs_at [OF assms(1)] by simp
  show "a < length (data w) \<Longrightarrow>
     \<forall>x. hkbClipTriggerArray_of (hkbClipTriggerArray_set c (data w ! a)) = Some x
        \<longrightarrow> x < length (data w)"
    using inv_triggers_at [OF assms(1)] assms(2) hkbClipTriggerArray_of_set by blast
qed (simp_all add: updaters_event_classes table_ok_updaters)

subsection \<open>Registering events\<close>

lemma same_objects_nth:
  assumes "same_objects w w'" and "a < length (data w)"
  shows "tag (data w' ! a) = tag (data w ! a)" "class_of (data w' ! a) = class_of (data w ! a)"
    "refs (data w' ! a) = refs (data w ! a)"
proof -
  from assms(1) have l: "length (data w') = length (data w)"
    by (metis length_map same_objects_def)
  from assms(1) have "map tag (data w') ! a = map tag (data w) ! a"
    "map class_of (data w') ! a = map class_of (data w) ! a"
    "map refs (data w') ! a = map refs (data w) ! a"
    by (simp_all add: same_objects_def)
  with assms(2) l show "tag (data w' ! a) = tag (data w ! a)"
    "class_of (data w' ! a) = class_of (data w ! a)" "refs (data w' ! a) = refs (data w ! a)"
    by simp_all
qed

lemma event_classes_no_trigger_table:
  "class_of ob \<in> event_classes \<Longrightarrow> hkbClipTriggerArray_of ob = None"
  by (cases ob) (simp_all add: event_classes_def)

lemma build_inv_same_objects:
  assumes s: "same_objects w w'" and i: "build_inv bf w" and e: "events_ok bf w'"
  shows "build_inv bf w'"
proof -
  from s have len: "length (data w') = length (data w)"
    by (metis length_map same_objects_def)
  note nth = same_objects_nth [OF s]
  have same: "data w' ! a = data w ! a"
    if "a < length (data w)" "class_of (data w ! a) \<notin> event_classes" for a
    using s that by (simp add: same_objects_def)
  have "tags_ok bf w'" using i s by (simp add: build_inv_def tags_ok_def same_objects_def)
  moreover have "attrs bf w'"
    using i nth(2) unfolding build_inv_def attrs_def len by auto
  moreover have "draft w'" using i s by (simp add: build_inv_def draft_def same_objects_def)
  moreover have "refs_ok w'" using i s by (simp add: build_inv_def refs_ok_def same_objects_def)
  moreover have "tables_ok w'"
    using i nth(2) same unfolding build_inv_def tables_ok_def len
    by (auto simp: event_classes_def)
  moreover have "triggers_valid w'"
  proof -
    have "c < length (data w)"
      if "a < length (data w)" "hkbClipTriggerArray_of (data w' ! a) = Some c" for a c
    proof (cases "class_of (data w ! a) \<in> event_classes")
      case True
      with nth(2) [OF that(1)] have "class_of (data w' ! a) \<in> event_classes" by simp
      with that(2) show ?thesis by (simp add: event_classes_no_trigger_table)
    next
      case False
      with same that i show ?thesis by (simp add: build_inv_def triggers_valid_def)
    qed
    then show ?thesis unfolding triggers_valid_def len by blast
  qed
  moreover have "states_ok bf w'"
  proof -
    have "entry_ok w' k x" if "entry_ok w k x" for k x
    proof -
      from that have a: "entry_state x < length (data w)" "entry_generator x < length (data w)"
        "entry_transitions x < length (data w)"
        "class_of (data w ! entry_state x) = ''hkbStateMachineStateInfo''"
        "class_of (data w ! entry_transitions x) = ''hkbStateMachineTransitionInfoArray''"
        by (simp_all add: entry_ok_def)
      then have "data w' ! entry_state x = data w ! entry_state x"
        "data w' ! entry_transitions x = data w ! entry_transitions x"
        by (simp_all add: same event_classes_def)
      with that a nth(1) [of "entry_generator x"] show ?thesis
        by (simp add: entry_ok_def len)
    qed
    with i s show ?thesis by (simp add: build_inv_def states_ok_def same_objects_def)
  qed
  moreover have "wild_ok bf w'"
    using i s nth(2) unfolding build_inv_def wild_ok_def len by (auto simp: same_objects_def)
  ultimately show ?thesis using e by (simp add: build_inv_def)
qed

lemma event_table_views:
  "class_of ob = ''hkbBehaviorGraphStringData'' \<Longrightarrow>
     eventNames (eventNames_append e ob) = eventNames ob @ [e]
     \<and> counter (eventNames_append e ob) = counter ob + 1
     \<and> numelements (eventNames_append e ob) = py_str (counter ob + 1)"
  "class_of ob = ''hkbBehaviorGraphData'' \<Longrightarrow>
     eventInfos (eventInfos_append fl ob) = eventInfos ob @ [py_str fl]
     \<and> counter (eventInfos_append fl ob) = counter ob + 1
     \<and> numelements (eventInfos_append fl ob) = py_str (counter ob + 1)"
  "class_of ob = ''hkbBehaviorGraphStringData'' \<Longrightarrow> eventInfos_append fl ob = ob"
  "class_of ob = ''hkbBehaviorGraphData'' \<Longrightarrow> eventNames_append e ob = ob"
  by (cases ob; simp)+

lemma events_ok_new_event:
  assumes a: "attrs bf w" and ev: "events_ok bf w" and n: "e \<notin> set (event_name_list w)"
    and sd: "hkbBehaviorGraphStringData bf = Some sd" and gd: "hkbBehaviorGraphData bf = Some gd"
  shows "events_ok bf (gd_add_event gd 0 (warning m
           ((update_obj sd (eventNames_append e) w)
              \<lparr>event_name_list := event_name_list w @ [e]\<rparr>)))"
proof -
  from a sd gd have s: "sd < length (data w)" "class_of (data w ! sd) = ''hkbBehaviorGraphStringData''"
    and g: "gd < length (data w)" "class_of (data w ! gd) = ''hkbBehaviorGraphData''"
    by (simp_all add: attrs_def)
  then have ne: "sd \<noteq> gd" by auto
  let ?w = "gd_add_event gd 0 (warning m
           ((update_obj sd (eventNames_append e) w)
              \<lparr>event_name_list := event_name_list w @ [e]\<rparr>))"
  have 1: "data ?w ! sd = eventNames_append e (data w ! sd)"
    using s g ne by (simp add: gd_add_event_def)
  have 2: "data ?w ! gd = eventInfos_append 0 (data w ! gd)"
    using s g ne by (simp add: gd_add_event_def)
  have 3: "event_name_list ?w = event_name_list w @ [e]"
    by (simp add: gd_add_event_def)
  from ev sd gd have o: "eventNames (data w ! sd) = event_name_list w"
    "counter (data w ! sd) = int (length (event_name_list w))"
    "length (eventInfos (data w ! gd)) = length (event_name_list w)"
    "counter (data w ! gd) = int (length (event_name_list w))"
    "distinct (event_name_list w)"
    by (simp_all add: events_ok_def)
  show ?thesis
    using sd gd o n s g
    by (simp add: events_ok_def 1 2 3 event_table_views add.commute)
qed

lemma build_inv_getOrCreateEventID:
  assumes i: "build_inv bf w" and sd: "hkbBehaviorGraphStringData bf = Some sd"
    and g: "getOrCreateEventID sd bf e w = (r, w')"
  shows "build_inv bf w' \<and> (\<exists>k. r = Inr k)"
proof (cases "e \<in> set (event_name_list w)")
  case True
  with g get_eventID_registered [OF True] i show ?thesis
    by (auto simp: getOrCreateEventID_old)
next
  case False
  from i obtain gd where gd: "hkbBehaviorGraphData bf = Some gd"
    by (auto simp: build_inv_def attrs_def)
  from g False gd have w': "w' = gd_add_event gd 0 (warning (''created new event '' @ e)
           ((update_obj sd (eventNames_append e) w)
              \<lparr>event_name_list := event_name_list w @ [e]\<rparr>))"
    and r: "r = Inr (int (length (event_name_list w)))"
    by (simp_all add: getOrCreateEventID_new)
  from i have "attrs bf w" "events_ok bf w" by (simp_all add: build_inv_def)
  from events_ok_new_event [OF this False sd gd] have "events_ok bf w'"
    unfolding w' .
  with build_inv_same_objects [OF getOrCreateEventID_same_objects [OF g] i] r
  show ?thesis by simp
qed

lemma build_inv_events_append:
  assumes "build_inv bf w"
  shows "build_inv bf (update_obj a (events_append x) w)"
proof (rule inv_update_obj [OF assms(1)])
  show "a < length (data w) \<Longrightarrow>
     \<forall>r \<in> set (refs (events_append x (data w ! a))). r = ''null'' \<or> r \<in> set (map tag (data w))"
    using inv_refs_at [OF assms(1)] by simp
  show "a < length (data w) \<Longrightarrow>
     \<forall>c. hkbClipTriggerArray_of (events_append x (data w ! a)) = Some c \<longrightarrow> c < length (data w)"
    using inv_triggers_at [OF assms(1)] by (cases "data w ! a") auto
  show "stateName (events_append x ob) = stateName ob \<and> stateIdx (events_append x ob) = stateIdx ob
      \<and> transitions_ref (events_append x ob) = transitions_ref ob
      \<and> generator_ref (events_append x ob) = generator_ref ob" for ob
    by (cases ob) simp_all
  show "table_ok (events_append x (data w ! a))"
    if "class_of (data w ! a) = ''hkbStateMachineTransitionInfoArray''" "table_ok (data w ! a)"
    using that by (cases "data w ! a") simp_all
qed (simp_all add: updaters_event_classes)

lemma build_inv_events_loop:
  "build_inv bf w \<Longrightarrow> events_loop a bf evs w = (r, w') \<Longrightarrow> build_inv bf w' \<and> r = Inr ()"
proof (induction evs arbitrary: w)
  case Nil
  then show ?case by simp
next
  case (Cons e es)
  from Cons.prems(1) obtain sd where sd: "hkbBehaviorGraphStringData bf = Some sd"
    by (auto simp: build_inv_def attrs_def)
  obtain r1 w1 where g: "getOrCreateEventID sd bf e w = (r1, w1)"
    by (cases "getOrCreateEventID sd bf e w")
  from build_inv_getOrCreateEventID [OF Cons.prems(1) sd g] obtain k
    where i1: "build_inv bf w1" and r1: "r1 = Inr k" by auto
  from Cons.prems(2) sd g r1
  have l: "events_loop a bf es (update_obj a (events_append (py_str k)) w1) = (r, w')"
    by simp
  have "build_inv bf (update_obj a (events_append (py_str k)) w1)"
    using i1 by (rule build_inv_events_append)
  then show ?case using l by (rule Cons.IH)
qed

subsection \<open>Table sizes\<close>

lemma sizes_warning [simp]: "sizes (warning m w) = sizes w"
  by (simp add: sizes_def)

lemma sizes_alloc [simp]:
  "sizes (w\<lparr>data := data w @ [ob]\<rparr>) = sizes w @ [length (transitions ob)]"
  by (simp add: sizes_def)

lemma sizes_fields [simp]:
  "sizes (w\<lparr>list_of_states := l\<rparr>) = sizes w"
  "sizes (w\<lparr>event_name_list := n\<rparr>) = sizes w"
  "sizes (w\<lparr>sm_list_of_states := s\<rparr>) = sizes w"
  by (simp_all add: sizes_def)

lemma length_sizes [simp]: "length (sizes w) = length (data w)"
  by (simp add: sizes_def)

lemma sizes_update_obj:
  "(\<And>ob. transitions (u ob) = transitions ob) \<Longrightarrow> sizes (update_obj a u w) = sizes w"
  by (cases "a < length (data w)")
     (simp_all add: sizes_def map_update list_update_same_conv list_update_beyond)

lemma transitions_updaters [simp]:
  "transitions (eventInfos_append fl ob) = transitions ob"
  "transitions (eventNames_append e ob) = transitions ob"
  "transitions (events_append x ob) = transitions ob"
  "transitions (triggers_set s ob) = transitions ob"
  "transitions (hkbClipTriggerArray_set c ob) = transitions ob"
  "transitions (triggers_append lt i rel ob) = transitions ob"
  "transitions (triggers_unfinished ob) = transitions ob"
  by (cases ob; simp)+

lemma sizes_add_transition:
  "a < length (data w) \<Longrightarrow> class_of (data w ! a) = ''hkbStateMachineTransitionInfoArray'' \<Longrightarrow>
     sizes (add_transition a i j t c wc w) = (sizes w)[a := Suc (sizes w ! a)]"
  by (simp add: sizes_def add_transition_def map_update transitions_transitions_append)

lemma event_classes_no_transitions:
  "class_of ob \<in> event_classes \<Longrightarrow> transitions ob = []"
  by (cases ob) (simp_all add: event_classes_def)

lemma sizes_same_objects:
  assumes "same_objects w w'"
  shows "sizes w' = sizes w"
proof (rule nth_equalityI)
  from assms show l: "length (sizes w') = length (sizes w)"
    by (simp add: same_objects_length)
  fix a assume "a < length (sizes w')"
  with l have a: "a < length (data w)" "a < length (data w')" by simp_all
  show "sizes w' ! a = sizes w ! a"
  proof (cases "class_of (data w ! a) \<in> event_classes")
    case True
    with same_objects_nth(2) [OF assms a(1)] have "class_of (data w' ! a) \<in> event_classes"
      by simp
    with True a show ?thesis by (simp add: sizes_def event_classes_no_transitions)
  next
    case False
    with assms a have "data w' ! a = data w ! a" by (simp add: same_objects_def)
    with a show ?thesis by (simp add: sizes_def)
  qed
qed

lemma steady_refl [simp]: "steady w w"
  unfolding steady_def by (rule exI [of _ 0]) simp

lemma steady_trans: "steady w w1 \<Longrightarrow> steady w1 w2 \<Longrightarrow> steady w w2"
  unfolding steady_def by (metis append.assoc replicate_add)

lemma steady_warning [simp]: "steady w (warning m w') = steady w w'"
  by (simp add: steady_def)

lemma steady_fields [simp]:
  "steady w (w'\<lparr>list_of_states := l\<rparr>) = steady w w'"
  by (simp add: steady_def)

lemma steady_alloc:
  "steady w w' \<Longrightarrow> transitions ob = [] \<Longrightarrow> steady w (w'\<lparr>data := data w' @ [ob]\<rparr>)"
  unfolding steady_def by (metis append.assoc length_0_conv replicate_append_same sizes_alloc
      replicate_Suc)

lemma steady_same_objects: "same_objects w w' \<Longrightarrow> steady w w'"
  unfolding steady_def by (rule exI [of _ 0]) (simp add: sizes_same_objects)

lemma steady_update_obj:
  "(\<And>ob. transitions (u ob) = transitions ob) \<Longrightarrow> steady w (update_obj a u w') = steady w w'"
  by (simp add: steady_def sizes_update_obj)

subsection \<open>Enter and exit lists\<close>

lemma build_inv_notify_events:
  assumes i: "build_inv bf w" and n: "notify_events ev bf w = (r, bf', w')"
  shows "build_inv bf' w'"
    and "\<exists>x. r = Inr x \<and> (\<forall>a. x = Some a \<longrightarrow> a < length (data w'))"
    and "list_of_states w' = list_of_states w"
    and "nStates bf' = nStates bf"
    and "wildcardtransitions bf' = wildcardtransitions bf"
    and "steady w w'"
proof -
  have "build_inv bf' w' \<and> (\<exists>x. r = Inr x \<and> (\<forall>a. x = Some a \<longrightarrow> a < length (data w')))
      \<and> list_of_states w' = list_of_states w \<and> nStates bf' = nStates bf
      \<and> wildcardtransitions bf' = wildcardtransitions bf
      \<and> (steady w w')"
  proof (cases "ev = EvStr ''null''")
    case True
    with n i have "bf' = bf \<and> w' = w \<and> r = Inr None" by (simp add: notify_events_def)
    with i show ?thesis by simp
  next
    case False
    let ?evs = "case ev of EvList l \<Rightarrow> l | EvStr s \<Rightarrow> [s]"
    let ?ob = "HkbStateMachineEventPropertyArray (format_tag (object_counter bf + 1))
                 (int (length ?evs)) (py_str (int (length ?evs))) []"
    let ?bf1 = "bf\<lparr>object_counter := object_counter bf + 1\<rparr>"
    let ?w1 = "w\<lparr>data := data w @ [?ob]\<rparr>"
    obtain r2 w2 where l: "events_loop (length (data w)) ?bf1 ?evs ?w1 = (r2, w2)"
      by (cases "events_loop (length (data w)) ?bf1 ?evs ?w1")
    have i1: "build_inv ?bf1 ?w1"
      by (rule inv_alloc [OF i]) (simp_all add: final_classes_def)
    from build_inv_events_loop [OF i1 l] have i2: "build_inv ?bf1 w2" and r2: "r2 = Inr ()"
      by simp_all
    from events_loop_same_objects [OF l] have s: "same_objects ?w1 w2" .
    from n False l r2 have e: "bf' = ?bf1" "w' = w2" "r = Inr (Some (length (data w)))"
      by (simp_all add: notify_events_def hkbStateMachineEventPropertyArray_init_def init_defs)
    from s have "length (data w2) = Suc (length (data w))"
      by (simp add: same_objects_length)
    moreover from s have "list_of_states w2 = list_of_states w" by (simp add: same_objects_def)
    moreover have "steady w ?w1" by (rule steady_alloc) simp_all
    with steady_same_objects [OF s] have "steady w w2" by (rule steady_trans [rotated])
    ultimately show ?thesis using i2 e by simp
  qed
  then show "build_inv bf' w'"
    and "\<exists>x. r = Inr x \<and> (\<forall>a. x = Some a \<longrightarrow> a < length (data w'))"
    and "list_of_states w' = list_of_states w"
    and "nStates bf' = nStates bf"
    and "wildcardtransitions bf' = wildcardtransitions bf"
    and "steady w w'"
    by blast+
qed

subsection \<open>A new entry of the state list\<close>

lemma entry_ok_fields [simp]:
  "entry_ok (w\<lparr>list_of_states := l\<rparr>) i e = entry_ok w i e"
  by (simp add: entry_ok_def)

lemma build_inv_append_entry:
  assumes i: "build_inv bf w"
    and e: "entry_ok w (length (list_of_states w)) e"
    and n: "entry_name e \<notin> set (map entry_name (list_of_states w))"
    and t: "entry_transitions e \<notin> set (map entry_transitions (list_of_states w))"
    and wt: "wildcardtransitions bf \<noteq> Some (entry_transitions e)"
  shows "build_inv (bf\<lparr>nStates := nStates bf + 1\<rparr>)
           (w\<lparr>list_of_states := list_of_states w @ [e]\<rparr>)"
proof -
  let ?bf = "bf\<lparr>nStates := nStates bf + 1\<rparr>" and ?w = "w\<lparr>list_of_states := list_of_states w @ [e]\<rparr>"
  have "tags_ok ?bf ?w" using i by (simp add: build_inv_def tags_ok_def)
  moreover have "attrs ?bf ?w" using i by (simp add: build_inv_def attrs_def)
  moreover have "events_ok ?bf ?w" using i by (simp add: build_inv_def events_ok_def)
  moreover have "draft ?w" using i by (simp add: build_inv_def draft_def)
  moreover have "refs_ok ?w" using i by (simp add: build_inv_def refs_ok_def)
  moreover have "tables_ok ?w" using i by (simp add: build_inv_def tables_ok_def)
  moreover have "triggers_valid ?w" using i by (simp add: build_inv_def triggers_valid_def)
  moreover have "states_ok ?bf ?w"
    using i e n t by (auto simp: build_inv_def states_ok_def nth_append less_Suc_eq)
  moreover have "wild_ok ?bf ?w"
    using i wt by (auto simp: build_inv_def wild_ok_def)
  ultimately show ?thesis by (simp add: build_inv_def)
qed

lemma build_inv_entry_bounds:
  assumes "build_inv bf w" and "e \<in> set (list_of_states w)"
  shows "entry_state e < length (data w)" "entry_generator e < length (data w)"
    "entry_transitions e < length (data w)"
    "class_of (data w ! entry_transitions e) = ''hkbStateMachineTransitionInfoArray''"
    "class_of (data w ! entry_state e) = ''hkbStateMachineStateInfo''"
proof -
  from assms(2) obtain k where "k < length (list_of_states w)" "list_of_states w ! k = e"
    by (auto simp: in_set_conv_nth)
  with assms(1) have "entry_ok w k e" by (auto simp: build_inv_def states_ok_def)
  then show "entry_state e < length (data w)" "entry_generator e < length (data w)"
    "entry_transitions e < length (data w)"
    "class_of (data w ! entry_transitions e) = ''hkbStateMachineTransitionInfoArray''"
    "class_of (data w ! entry_state e) = ''hkbStateMachineStateInfo''"
    by (simp_all add: entry_ok_def)
qed

lemma build_inv_wild_bound:
  "build_inv bf w \<Longrightarrow> wildcardtransitions bf = Some wt \<Longrightarrow> wt < length (data w)"
  by (simp add: build_inv_def wild_ok_def)

lemma entry_ok_alloc': "entry_ok w i e \<Longrightarrow> entry_ok (w\<lparr>data := data w @ [ob]\<rparr>) i e"
  by (simp add: entry_ok_def nth_append)

lemma tag_at_mem: "a < length (data w) \<Longrightarrow> tag_at w a \<in> set (map tag (data w))"
  by (simp add: tag_at_def)

lemma grows_length: "grows w w' \<Longrightarrow> length (data w) \<le> length (data w')"
  by (metis grows_def length_map prefix_length_le)

subsection \<open>\<^verbatim>\<open>add_state\<close>\<close>

lemma build_inv_add_state:
  assumes i: "build_inv bf w" and a: "add_state n p l g en ex bf w = (r, bf', w')"
  shows "build_inv bf' w'" and "r = Inr ()"
    and "wildcardtransitions bf' = wildcardtransitions bf"
    and "steady w w'"
    and "(\<not> g \<and> p = ''placeholder'') \<or> name_in_project (list_of_states w) n
          \<Longrightarrow> list_of_states w' = list_of_states w"
    and "\<not> ((\<not> g \<and> p = ''placeholder'') \<or> name_in_project (list_of_states w) n)
          \<Longrightarrow> \<exists>st gen. list_of_states w' = list_of_states w @ [(st, gen, length (data w), n)]"
proof -
  have "build_inv bf' w' \<and> r = Inr () \<and> wildcardtransitions bf' = wildcardtransitions bf
      \<and> (steady w w')
      \<and> (if (\<not> g \<and> p = ''placeholder'') \<or> name_in_project (list_of_states w) n
         then list_of_states w' = list_of_states w
         else \<exists>st gen. list_of_states w' = list_of_states w @ [(st, gen, length (data w), n)])"
  proof (cases "(\<not> g \<and> p = ''placeholder'') \<or> name_in_project (list_of_states w) n")
    case True
    with a obtain m where "bf' = bf" "w' = warning m w" "r = Inr ()"
      by (auto simp: add_state_def split: if_splits)
    with i True show ?thesis by simp
  next
    case False
    let ?tr = "length (data w)" and ?gen = "Suc (length (data w))"
    let ?tia = "HkbStateMachineTransitionInfoArray (format_tag (object_counter bf + 1)) 0 (py_str 0) []"
    let ?bf1 = "bf\<lparr>object_counter := object_counter bf + 1\<rparr>"
    let ?w1 = "w\<lparr>data := data w @ [?tia]\<rparr>"
    let ?g = "if \<not> g then HkbClipGenerator (format_tag (object_counter ?bf1 + 1)) n p ''null''
                            (if l then ''MODE_LOOPING'' else ''MODE_SINGLE_PLAY'')
              else BGSGamebryoSequenceGenerator (format_tag (object_counter ?bf1 + 1))
                     (n @ ''Sequence'') n"
    let ?bf2 = "?bf1\<lparr>object_counter := object_counter ?bf1 + 1\<rparr>"
    let ?w2 = "?w1\<lparr>data := data ?w1 @ [?g]\<rparr>"
    have i1: "build_inv ?bf1 ?w1"
      by (rule inv_alloc [OF i]) (simp_all add: final_classes_def table_ok_def)
    have i2: "build_inv ?bf2 ?w2"
      by (rule inv_alloc [OF i1]) (simp_all add: final_classes_def)
    obtain r3 bf3 w3 where 3: "notify_events en ?bf2 ?w2 = (r3, bf3, w3)"
      by (cases "notify_events en ?bf2 ?w2")
    note n3 = build_inv_notify_events [OF i2 3]
    from n3(2) obtain x3 where r3: "r3 = Inr x3" and x3: "\<forall>a. x3 = Some a \<longrightarrow> a < length (data w3)"
      by blast
    obtain r4 bf4 w4 where 4: "notify_events ex bf3 w3 = (r4, bf4, w4)"
      by (cases "notify_events ex bf3 w3")
    note n4 = build_inv_notify_events [OF n3(1) 4]
    from n4(2) obtain x4 where r4: "r4 = Inr x4" and x4: "\<forall>a. x4 = Some a \<longrightarrow> a < length (data w4)"
      by blast
    from notify_events_grows [OF 3] notify_events_grows [OF 4]
    have g24: "grows ?w2 w4" and g34: "grows w3 w4" by (blast intro: grows_trans)+
    have len: "Suc (Suc (length (data w))) \<le> length (data w4)"
      using grows_length [OF g24] by simp
    have ctr: "class_of (data w4 ! ?tr) = ''hkbStateMachineTransitionInfoArray''"
      using grows_class_of [OF g24, of ?tr] by (simp add: nth_append)
    have x3': "\<forall>a. x3 = Some a \<longrightarrow> a < length (data w4)"
      using x3 grows_length [OF g34] by auto
    have l4: "list_of_states w4 = list_of_states w" using n3(3) n4(3) by simp
    have ns4: "nStates bf4 = nStates bf" using n3(4) n4(4) by simp
    have wt4: "wildcardtransitions bf4 = wildcardtransitions bf" using n3(5) n4(5) by simp
    have "steady w ?w2" by (intro steady_alloc) simp_all
    with n3(6) n4(6) have s4: "steady w w4" by (blast intro: steady_trans)
    let ?st = "HkbStateMachineStateInfo (format_tag (object_counter bf4 + 1))
                (case x3 of None \<Rightarrow> ''null'' | Some e \<Rightarrow> tag_at w4 e)
                (case x4 of None \<Rightarrow> ''null'' | Some e \<Rightarrow> tag_at w4 e)
                (tag_at w4 ?tr) (tag_at w4 ?gen) n (nStates bf4) (py_str (nStates bf4)) None"
    let ?bf5 = "bf4\<lparr>object_counter := object_counter bf4 + 1\<rparr>"
    let ?w5 = "w4\<lparr>data := data w4 @ [?st]\<rparr>"
    let ?e = "(length (data w4), ?gen, ?tr, n)"
    have i5: "build_inv ?bf5 ?w5"
    proof (rule inv_alloc [OF n4(1)])
      show "\<forall>r\<in>set (refs ?st). r = ''null'' \<or> r \<in> set (map tag (data w4)) \<or> r = tag ?st"
        using x3' x4 len by (auto simp: tag_at_def split: option.splits)
    qed (simp_all add: final_classes_def)
    have "bf' = ?bf5\<lparr>nStates := nStates ?bf5 + 1\<rparr>
      \<and> (\<exists>m. w' = warning m (?w5\<lparr>list_of_states := list_of_states ?w5 @ [?e]\<rparr>))
      \<and> r = Inr ()"
      using a False 3 4 r3 r4
      by (cases g; auto simp: add_state_def init_defs)
    then have res: "bf' = ?bf5\<lparr>nStates := nStates ?bf5 + 1\<rparr>"
      "\<exists>m. w' = warning m (?w5\<lparr>list_of_states := list_of_states ?w5 @ [?e]\<rparr>)"
      "r = Inr ()"
      by simp_all
    from i have ns: "nStates bf = int (length (list_of_states w))"
      by (simp add: build_inv_def states_ok_def)
    have eo: "entry_ok ?w5 (length (list_of_states ?w5)) ?e"
      using len ctr ns ns4 l4
      by (simp add: entry_ok_def entry_state_def entry_generator_def entry_transitions_def
          entry_name_def nth_append tag_at_def)
    have nn: "entry_name ?e \<notin> set (map entry_name (list_of_states ?w5))"
      using False l4 by (simp add: name_in_project_iff entry_name_def [abs_def])
    have tn: "entry_transitions ?e \<notin> set (map entry_transitions (list_of_states ?w5))"
      using build_inv_entry_bounds(3) [OF i] l4 by (fastforce simp: entry_transitions_def)
    have wn: "wildcardtransitions ?bf5 \<noteq> Some (entry_transitions ?e)"
      using build_inv_wild_bound [OF i] wt4 by (auto simp: entry_transitions_def)
    from build_inv_append_entry [OF i5 eo nn tn wn] res
    have "build_inv bf' w'" by auto
    moreover from res steady_alloc [OF s4, of ?st] have "steady w w'"
      by auto
    moreover from res l4 have "\<exists>st gen. list_of_states w' = list_of_states w @ [(st, gen, ?tr, n)]"
      by auto
    ultimately show ?thesis using res(1,3) wt4 False by auto
  qed
  then show "build_inv bf' w'" and "r = Inr ()"
    and "wildcardtransitions bf' = wildcardtransitions bf"
    and "steady w w'"
    and "(\<not> g \<and> p = ''placeholder'') \<or> name_in_project (list_of_states w) n
          \<Longrightarrow> list_of_states w' = list_of_states w"
    and "\<not> ((\<not> g \<and> p = ''placeholder'') \<or> name_in_project (list_of_states w) n)
          \<Longrightarrow> \<exists>st gen. list_of_states w' = list_of_states w @ [(st, gen, length (data w), n)]"
    by (simp_all split: if_splits)
qed

subsection \<open>\<^verbatim>\<open>connect_states\<close>\<close>

lemma state_loop_distinct:
  "distinct (map entry_name es) \<Longrightarrow> e \<in> set es \<Longrightarrow>
     state_loop es (entry_name e) v = (True, Some e)"
proof (induction es arbitrary: v)
  case Nil
  then show ?case by simp
next
  case (Cons x xs)
  obtain a b c d where x: "x = (a, b, c, d)" by (cases x)
  show ?case
  proof (cases "e = x")
    case True
    with x show ?thesis by (simp add: entry_name_def)
  next
    case False
    with Cons.prems have "e \<in> set xs" "entry_name x \<noteq> entry_name e" by auto
    with Cons x show ?thesis by (simp add: entry_name_def)
  qed
qed

lemma name_in_project_entry:
  "name_in_project es n \<longleftrightarrow> (\<exists>e \<in> set es. entry_name e = n)"
  by (auto simp: name_in_project_iff entry_name_def)

lemma state_loop_vars:
  assumes "state_loop es n None = (found, vars)" and "es \<noteq> []"
  shows "\<exists>e \<in> set es. vars = Some e"
  using state_loop_cases [OF assms(1)] assms(2) by (cases found) auto

lemma build_inv_connect_states:
  assumes i: "build_inv bf w" and c: "connect_states s1 s2 e bf w = (r, bf', w')"
  shows "build_inv bf' w'" and "bf' = bf" and "list_of_states w' = list_of_states w"
    and "s1 = s2 \<Longrightarrow> w' = w"
    and "s1 \<noteq> s2 \<Longrightarrow> x \<in> set (list_of_states w) \<Longrightarrow> entry_name x = s1
          \<Longrightarrow> name_in_project (list_of_states w) s2
          \<Longrightarrow> sizes w' = (sizes w)[entry_transitions x := Suc (sizes w ! entry_transitions x)]"
proof -
  have "build_inv bf' w' \<and> bf' = bf \<and> list_of_states w' = list_of_states w
      \<and> (s1 = s2 \<longrightarrow> w' = w)
      \<and> (s1 \<noteq> s2 \<longrightarrow> x \<in> set (list_of_states w) \<longrightarrow> entry_name x = s1
           \<longrightarrow> name_in_project (list_of_states w) s2
           \<longrightarrow> sizes w' = (sizes w)[entry_transitions x := Suc (sizes w ! entry_transitions x)])"
  proof (cases "s1 = s2")
    case True
    with c i show ?thesis by (simp add: connect_states_def)
  next
    case False
    obtain found1 vars1 where l1: "state_loop (list_of_states w) s1 None = (found1, vars1)"
      by (cases "state_loop (list_of_states w) s1 None")
    obtain found2 vars2 where l2: "state_loop (list_of_states w) s2 None = (found2, vars2)"
      by (cases "state_loop (list_of_states w) s2 None")
    let ?w1 = "if found1 then w
               else warning (''connect_states error, state1 '' @ s1 @ '' doesnt exist'') w"
    let ?w2 = "if found2 then ?w1
               else warning (''connect_states error, state2 '' @ s2 @ '' doesnt exist'') ?w1"
    have i2: "build_inv bf ?w2" using i by simp
    have s2: "sizes ?w2 = sizes w" "list_of_states ?w2 = list_of_states w" by simp_all
    from i obtain sd be where sd: "hkbBehaviorGraphStringData bf = Some sd"
      and be: "blend_effect bf = Some be"
      by (auto simp: build_inv_def attrs_def)
    obtain r3 w3 where 3: "getOrCreateEventID sd bf e ?w2 = (r3, w3)"
      by (cases "getOrCreateEventID sd bf e ?w2")
    from build_inv_getOrCreateEventID [OF i2 sd 3] obtain k
      where i3: "build_inv bf w3" and r3: "r3 = Inr k" by auto
    note so = getOrCreateEventID_same_objects [OF 3]
    from so s2 have l3: "list_of_states w3 = list_of_states w" by (simp add: same_objects_def)
    from sizes_same_objects [OF so] s2 have z3: "sizes w3 = sizes w" by simp
    from i3 be have be3: "be < length (data w3)" by (simp add: build_inv_def attrs_def)
    show ?thesis
    proof (cases "list_of_states w = []")
      case True
      with l1 l2 have "vars1 = None" by simp
      with c False l1 l2 sd 3 r3 have "bf' = bf \<and> w' = w3"
        by (auto simp: connect_states_def Let_def split: if_splits)
      with i3 l3 False True show ?thesis by simp
    next
      case ne: False
      from state_loop_vars [OF l1 ne] obtain e1 where e1: "e1 \<in> set (list_of_states w)"
        "vars1 = Some e1" by blast
      from state_loop_vars [OF l2 ne] obtain e2 where e2: "e2 \<in> set (list_of_states w)"
        "vars2 = Some e2" by blast
      obtain st1 g1 t1 n1 where x1: "e1 = (st1, g1, t1, n1)" by (cases e1)
      obtain st2 g2 t2 n2 where x2: "e2 = (st2, g2, t2, n2)" by (cases e2)
      let ?w4 = "add_transition t1 k (stateIdx (data w3 ! st2)) (tag_at w3 be) ''null'' False w3"
      from c False l1 l2 sd 3 r3 e1 e2 x1 x2 be
      have res: "bf' = bf \<and> r = Inr () \<and> (\<exists>m. w' = warning m ?w4)"
        by (auto simp: connect_states_def Let_def split: if_splits)
      have i4: "build_inv bf ?w4"
        using tag_at_mem [OF be3] by (intro inv_add_transition [OF i3]) simp
      from e1 x1 l3 build_inv_entry_bounds(3,4) [OF i3, of e1]
      have t1: "t1 < length (data w3)"
        "class_of (data w3 ! t1) = ''hkbStateMachineTransitionInfoArray''"
        by (simp_all add: entry_transitions_def)
      from sizes_add_transition [OF t1] z3
      have z4: "sizes ?w4 = (sizes w)[t1 := Suc (sizes w ! t1)]" by simp
      have "entry_transitions x = t1"
        if "x \<in> set (list_of_states w)" "entry_name x = s1"
      proof -
        from i have "distinct (map entry_name (list_of_states w))"
          by (simp add: build_inv_def states_ok_def)
        from state_loop_distinct [OF this that(1), of None] that(2) l1 e1 x1
        show ?thesis by (auto simp: entry_transitions_def)
      qed
      with res i4 l3 z4 False show ?thesis
        by (auto simp: add_transition_def)
    qed
  qed
  then show "build_inv bf' w'" and "bf' = bf" and "list_of_states w' = list_of_states w"
    and "s1 = s2 \<Longrightarrow> w' = w"
    and "s1 \<noteq> s2 \<Longrightarrow> x \<in> set (list_of_states w) \<Longrightarrow> entry_name x = s1
          \<Longrightarrow> name_in_project (list_of_states w) s2
          \<Longrightarrow> sizes w' = (sizes w)[entry_transitions x := Suc (sizes w ! entry_transitions x)]"
    by blast+
qed

subsection \<open>\<^verbatim>\<open>add_wildcard\<close>\<close>

lemma build_inv_set_wildcard:
  assumes i: "build_inv bf w" and "wt < length (data w)"
    and "class_of (data w ! wt) = ''hkbStateMachineTransitionInfoArray''"
    and "wt \<notin> set (map entry_transitions (list_of_states w))"
  shows "build_inv (bf\<lparr>wildcardtransitions := Some wt\<rparr>) w"
  using assms
  by (simp add: build_inv_def tags_ok_def attrs_def events_ok_def states_ok_def wild_ok_def)

lemma state_loop_not_found:
  "\<not> name_in_project es n \<Longrightarrow> fst (state_loop es n v) = False"
  by (induction es n v rule: state_loop.induct) (auto split: if_splits)

lemma state_loop_name_found:
  "name_in_project es n \<Longrightarrow> \<exists>e \<in> set es. entry_name e = n \<and> state_loop es n v = (True, Some e)"
  by (induction es n v rule: state_loop.induct) (auto simp: entry_name_def split: if_splits)

lemma build_inv_add_wildcard:
  assumes i: "build_inv bf w" and c: "add_wildcard s e bf w = (r, bf', w')"
  shows "build_inv bf' w'" and "r = Inr ()" and "list_of_states w' = list_of_states w"
    and "\<not> name_in_project (list_of_states w) s \<Longrightarrow>
           steady w w' \<and> wildcardtransitions bf' = wildcardtransitions bf"
    and "name_in_project (list_of_states w) s \<Longrightarrow>
           (case wildcardtransitions bf of
              Some wt \<Rightarrow> wildcardtransitions bf' = Some wt
                 \<and> sizes w' = (sizes w)[wt := Suc (sizes w ! wt)]
            | None \<Rightarrow> wildcardtransitions bf' = Some (length (data w))
                 \<and> sizes w' = sizes w @ [1])"
proof -
  have "build_inv bf' w' \<and> r = Inr () \<and> list_of_states w' = list_of_states w
      \<and> (if \<not> name_in_project (list_of_states w) s
         then steady w w' \<and> wildcardtransitions bf' = wildcardtransitions bf
         else (case wildcardtransitions bf of
              Some wt \<Rightarrow> wildcardtransitions bf' = Some wt
                 \<and> sizes w' = (sizes w)[wt := Suc (sizes w ! wt)]
            | None \<Rightarrow> wildcardtransitions bf' = Some (length (data w))
                 \<and> sizes w' = sizes w @ [1]))"
  proof (cases "name_in_project (list_of_states w) s")
    case False
    obtain vars where "state_loop (list_of_states w) s None = (False, vars)"
      using state_loop_not_found [OF False, of None]
      by (cases "state_loop (list_of_states w) s None") auto
    with c obtain m where "bf' = bf" "w' = warning m w" "r = Inr ()"
      by (auto simp: add_wildcard_def)
    with i False show ?thesis by simp
  next
    case True
    from state_loop_name_found [OF True, of None] obtain x
      where x: "x \<in> set (list_of_states w)"
        and l: "state_loop (list_of_states w) s None = (True, Some x)" by blast
    obtain st g t n where xe: "x = (st, g, t, n)" by (cases x)
    from i obtain sd be where sd: "hkbBehaviorGraphStringData bf = Some sd"
      and be: "blend_effect bf = Some be"
      by (auto simp: build_inv_def attrs_def)
    obtain r1 w1 where 1: "getOrCreateEventID sd bf e w = (r1, w1)"
      by (cases "getOrCreateEventID sd bf e w")
    from build_inv_getOrCreateEventID [OF i sd 1] obtain k
      where i1: "build_inv bf w1" and r1: "r1 = Inr k" by auto
    note so = getOrCreateEventID_same_objects [OF 1]
    from so have l1: "list_of_states w1 = list_of_states w" by (simp add: same_objects_def)
    from sizes_same_objects [OF so] have z1: "sizes w1 = sizes w" .
    from so have len1: "length (data w1) = length (data w)" by (rule same_objects_length)
    show ?thesis
    proof (cases "wildcardtransitions bf")
      case (Some wt)
      let ?w3 = "add_transition wt k (stateIdx (data w1 ! st)) (tag_at w1 be) ''null'' True w1"
      from c l xe sd 1 r1 Some be
      have res: "bf' = bf \<and> r = Inr () \<and> (\<exists>m. w' = warning m ?w3)"
        by (auto simp: add_wildcard_def getOrCreatewildcardtransitions_def)
      from i1 be have be1: "be < length (data w1)" by (simp add: build_inv_def attrs_def)
      have i3: "build_inv bf ?w3"
        using tag_at_mem [OF be1] by (intro inv_add_transition [OF i1]) simp
      from i1 Some have wt: "wt < length (data w1)"
        "class_of (data w1 ! wt) = ''hkbStateMachineTransitionInfoArray''"
        by (simp_all add: build_inv_def wild_ok_def)
      from sizes_add_transition [OF wt] z1
      have "sizes ?w3 = (sizes w)[wt := Suc (sizes w ! wt)]" by simp
      with res i3 l1 True Some show ?thesis by (auto simp: add_transition_def)
    next
      case None
      let ?wt = "length (data w1)"
      let ?tia = "HkbStateMachineTransitionInfoArray (format_tag (object_counter bf + 1)) 0
                    (py_str 0) []"
      let ?bf1 = "bf\<lparr>object_counter := object_counter bf + 1\<rparr>"
      let ?w2 = "w1\<lparr>data := data w1 @ [?tia]\<rparr>"
      let ?bf2 = "?bf1\<lparr>wildcardtransitions := Some ?wt\<rparr>"
      let ?w3 = "add_transition ?wt k (stateIdx (data ?w2 ! st)) (tag_at ?w2 be) ''null'' True ?w2"
      from c l xe sd 1 r1 None be
      have res: "bf' = ?bf2 \<and> r = Inr () \<and> (\<exists>m. w' = warning m ?w3)"
        by (auto simp: add_wildcard_def getOrCreatewildcardtransitions_def init_defs)
      have i2: "build_inv ?bf1 ?w2"
        by (rule inv_alloc [OF i1]) (simp_all add: final_classes_def table_ok_def)
      have "?wt \<notin> set (map entry_transitions (list_of_states ?w2))"
        using build_inv_entry_bounds(3) [OF i1] by fastforce
      then have i2': "build_inv ?bf2 ?w2"
        by (intro build_inv_set_wildcard [OF i2]) simp_all
      from i2' be have be2: "be < length (data ?w2)" by (simp add: build_inv_def attrs_def)
      have i3: "build_inv ?bf2 ?w3"
        using tag_at_mem [OF be2] by (intro inv_add_transition [OF i2']) simp
      have "sizes ?w3 = (sizes ?w2)[?wt := Suc (sizes ?w2 ! ?wt)]"
        by (rule sizes_add_transition) simp_all
      moreover have "(sizes w @ [0])[length (data w) := Suc 0] = sizes w @ [Suc 0]"
        using list_update_length [of "sizes w" 0 "[]" "Suc 0"] by simp
      ultimately have "sizes ?w3 = sizes w @ [1]"
        using z1 len1 by (simp add: nth_append)
      with res i3 l1 True None len1 show ?thesis by (auto simp: add_transition_def)
    qed
  qed
  then show "build_inv bf' w'" and "r = Inr ()" and "list_of_states w' = list_of_states w"
    and "\<not> name_in_project (list_of_states w) s \<Longrightarrow>
           steady w w' \<and> wildcardtransitions bf' = wildcardtransitions bf"
    and "name_in_project (list_of_states w) s \<Longrightarrow>
           (case wildcardtransitions bf of
              Some wt \<Rightarrow> wildcardtransitions bf' = Some wt
                 \<and> sizes w' = (sizes w)[wt := Suc (sizes w ! wt)]
            | None \<Rightarrow> wildcardtransitions bf' = Some (length (data w))
                 \<and> sizes w' = sizes w @ [1])"
    by (simp_all split: if_splits)
qed

subsection \<open>\<^verbatim>\<open>add_clip_trigger\<close>\<close>

lemma build_inv_getOrCreateClipTriggerArray:
  assumes i: "build_inv bf w" and st: "st < length (data w)"
    and g: "getOrCreateClipTriggerArray st bf w = (c, bf', w')"
  shows "build_inv bf' w'" and "c < length (data w')"
    and "list_of_states w' = list_of_states w"
    and "wildcardtransitions bf' = wildcardtransitions bf"
    and "steady w w'"
proof -
  have "build_inv bf' w' \<and> c < length (data w') \<and> list_of_states w' = list_of_states w
      \<and> wildcardtransitions bf' = wildcardtransitions bf \<and> steady w w'"
  proof (cases "hkbClipTriggerArray_of (data w ! st)")
    case (Some c')
    with g have "c = c'" "bf' = bf" "w' = w"
      by (simp_all add: getOrCreateClipTriggerArray_def)
    with i inv_triggers_at [OF i st Some] show ?thesis by simp
  next
    case None
    let ?cta = "HkbClipTriggerArray (format_tag (object_counter bf + 1)) 0 (py_str 0) []"
    let ?bf1 = "bf\<lparr>object_counter := object_counter bf + 1\<rparr>"
    let ?w1 = "w\<lparr>data := data w @ [?cta]\<rparr>"
    let ?w2 = "update_obj st (hkbClipTriggerArray_set (length (data w))) ?w1"
    from g None have res: "c = length (data w)" "bf' = ?bf1" "w' = ?w2"
      by (auto simp: getOrCreateClipTriggerArray_def init_defs)
    have i1: "build_inv ?bf1 ?w1"
      by (rule inv_alloc [OF i]) (simp_all add: final_classes_def)
    have i2: "build_inv ?bf1 ?w2"
      by (rule inv_hkbClipTriggerArray_set [OF i1]) simp
    have "steady w ?w1" by (rule steady_alloc) simp_all
    then have "steady w ?w2" by (simp add: steady_update_obj)
    with i2 res show ?thesis by simp
  qed
  then show "build_inv bf' w'" and "c < length (data w')"
    and "list_of_states w' = list_of_states w"
    and "wildcardtransitions bf' = wildcardtransitions bf"
    and "steady w w'"
    by blast+
qed

lemma build_inv_add_clip_trigger:
  assumes i: "build_inv bf w" and c: "add_clip_trigger s e rel lt bf w = (r, bf', w')"
  shows "build_inv bf' w'" and "list_of_states w' = list_of_states w"
    and "wildcardtransitions bf' = wildcardtransitions bf"
    and "steady w w'"
proof -
  have "build_inv bf' w' \<and> list_of_states w' = list_of_states w
      \<and> wildcardtransitions bf' = wildcardtransitions bf \<and> steady w w'"
  proof -
    obtain found vars where l: "state_loop (list_of_states w) s None = (found, vars)"
      by (cases "state_loop (list_of_states w) s None")
    let ?w1 = "if found then w
               else warning (''add_clip_trigger error, state '' @ s @ '' doesnt exist'') w"
    have i1: "build_inv bf ?w1" using i by simp
    have s1: "steady w ?w1" "list_of_states ?w1 = list_of_states w" by simp_all
    show ?thesis
    proof (cases vars)
      case None
      with c l have "bf' = bf" "w' = ?w1"
        by (auto simp: add_clip_trigger_def Let_def split: if_splits)
      with i1 s1 show ?thesis by simp
    next
      case (Some x)
      obtain st g t n where xe: "x = (st, g, t, n)" by (cases x)
      from state_loop_cases [OF l] Some have "x \<in> set (list_of_states w)"
        by (cases found) (auto split: if_splits)
      with s1 have "x \<in> set (list_of_states ?w1)" by simp
      from build_inv_entry_bounds(1) [OF i1 this] xe
      have st: "st < length (data ?w1)" by (simp add: entry_state_def)
      show ?thesis
      proof (cases "isinstance_BGSGamebryoSequenceGenerator (data ?w1 ! g)")
        case True
        with c l Some xe have "bf' = bf" "w' = ?w1"
          by (auto simp: add_clip_trigger_def Let_def split: if_splits)
        with i1 s1 show ?thesis by simp
      next
        case False
        obtain ct bf2 w2 where 2: "getOrCreateClipTriggerArray st bf ?w1 = (ct, bf2, w2)"
          by (cases "getOrCreateClipTriggerArray st bf ?w1")
        note g2 = build_inv_getOrCreateClipTriggerArray [OF i1 st 2]
        from g2(1) obtain sd where sd: "hkbBehaviorGraphStringData bf2 = Some sd"
          by (auto simp: build_inv_def attrs_def)
        obtain r3 w3 where 3: "getOrCreateEventID sd bf2 e w2 = (r3, w3)"
          by (cases "getOrCreateEventID sd bf2 e w2")
        from build_inv_getOrCreateEventID [OF g2(1) sd 3] obtain k
          where i3: "build_inv bf2 w3" and r3: "r3 = Inr k" by auto
        note so = getOrCreateEventID_same_objects [OF 3]
        from so have l3: "list_of_states w3 = list_of_states w2" by (simp add: same_objects_def)
        from so have len3: "length (data w3) = length (data w2)" by (rule same_objects_length)
        obtain r4 w4 where 4: "add_trigger ct lt k rel w3 = (r4, w4)"
          by (cases "add_trigger ct lt k rel w3")
        let ?w5 = "set_trigger g ct w4"
        from c l Some xe False 2 sd 3 r3 4 have res: "bf' = bf2" "w' = w4 \<or> w' = ?w5"
          by (auto simp: add_clip_trigger_def Let_def split: if_splits sum.splits)
        from inv_add_trigger [OF i3, of ct lt k rel] 4 have i4: "build_inv bf2 w4" by simp
        from 4 have u4: "w4 = update_obj ct triggers_unfinished w3
            \<or> w4 = update_obj ct (triggers_append lt k rel) w3"
          by (auto simp: add_trigger_def split: if_splits)
        then have "ct < length (data w4)" using g2(2) len3 by auto
        with i4 have i5: "build_inv bf2 ?w5" by (rule inv_set_trigger)
        from s1(1) g2(5) steady_same_objects [OF so] have "steady w w3"
          by (blast intro: steady_trans)
        with u4 have s4: "steady w w4" by (auto simp: steady_update_obj)
        then have s5: "steady w ?w5" by (simp add: set_trigger_def steady_update_obj)
        from u4 l3 g2(3) s1(2) have l4: "list_of_states w4 = list_of_states w" by auto
        then have l5: "list_of_states ?w5 = list_of_states w" by (simp add: set_trigger_def)
        from res i4 i5 s4 s5 l4 l5 g2(4) show ?thesis by auto
      qed
    qed
  qed
  then show "build_inv bf' w'" and "list_of_states w' = list_of_states w"
    and "wildcardtransitions bf' = wildcardtransitions bf"
    and "steady w w'"
    by blast+
qed

subsection \<open>Scripts\<close>

lemma build_inv_run_op:
  "build_inv bf w \<Longrightarrow> run_op x bf w = (r, bf', w') \<Longrightarrow> build_inv bf' w'"
  by (cases x)
     (auto dest: build_inv_add_state(1) build_inv_add_clip_trigger(1) build_inv_connect_states(1)
        build_inv_add_wildcard(1))

lemma build_inv_run_ops:
  "build_inv bf w \<Longrightarrow> run_ops xs (bf, w) = (bf', w') \<Longrightarrow> build_inv bf' w'"
proof (induction xs arbitrary: bf w)
  case Nil
  then show ?case by simp
next
  case (Cons x xs)
  obtain r bf1 w1 where 1: "run_op x bf w = (r, bf1, w1)"
    by (cases "run_op x bf w")
  with Cons.prems(2) have 2: "run_ops xs (bf1, w1) = (bf', w')" by simp
  from build_inv_run_op [OF Cons.prems(1) 1] show ?case using 2 by (rule Cons.IH)
qed

lemma upto_52_55: "[52..55] = [52, 53, 54, (55::int)]"
  by (simp add: upto.simps)

lemma build_inv_new:
  assumes "new_BehaviorFile init_world = (Inr bf, w)"
  shows "build_inv bf w"
proof -
  from assms have bf: "bf = \<lparr>object_counter = 55, nStates = 0,
            hkbBehaviorGraphStringData = Some 0,
            hkbVariableValueSet = Some 1,
            hkbBehaviorGraphData = Some 2,
            blend_effect = Some 3,
            wildcardtransitions = None, hkbStateMachineObj = None,
            hkbBehaviorGraphObj = None\<rparr>"
    and w: "w = init_world\<lparr>data :=
          [HkbBehaviorGraphStringData (format_tag 52) 0 (py_str 0) [],
           HkbVariableValueSet (format_tag 53),
           HkbBehaviorGraphData (format_tag 54) 0 (py_str 0) []
             (format_tag 53) (format_tag 52),
           HkbBlendingTransitionEffect (format_tag 55) ''ZeroDuration'']\<rparr>"
    by (auto simp: new_BehaviorFile_eq init_world_def numeral_eq_Suc)
  have "tags_ok bf w" by (simp add: bf w tags_ok_def root_index_def upto_52_55)
  moreover have "attrs bf w" by (simp add: bf w attrs_def)
  moreover have "events_ok bf w" by (simp add: bf w events_ok_def init_world_def)
  moreover have "draft w" by (simp add: w draft_def init_world_def final_classes_def)
  moreover have "refs_ok w" by (simp add: w refs_ok_def)
  moreover have "tables_ok w" by (auto simp: w tables_ok_def less_Suc_eq numeral_eq_Suc)
  moreover have "triggers_valid w"
    by (auto simp: w triggers_valid_def less_Suc_eq numeral_eq_Suc)
  moreover have "states_ok bf w" by (simp add: bf w states_ok_def init_world_def)
  moreover have "wild_ok bf w" by (simp add: bf wild_ok_def)
  ultimately show ?thesis by (simp add: build_inv_def)
qed

lemma build_inv_script: "script ops = Some (bf, w) \<Longrightarrow> build_inv bf w"
proof -
  assume s: "script ops = Some (bf, w)"
  obtain bf0 w0 where n: "new_BehaviorFile init_world = (Inr bf0, w0)"
    by (simp add: new_BehaviorFile_eq)
  with s have "run_ops ops (bf0, w0) = (bf, w)" by (simp add: script_def)
  with build_inv_new [OF n] show ?thesis by (rule build_inv_run_ops)
qed

lemma build_inv_tags:
  "build_inv bf w \<Longrightarrow> map tag (data w) = map format_tag [root_index + 1 .. object_counter bf]"
  by (simp add: build_inv_def tags_ok_def)

lemma inj_format_tag: "inj_on format_tag A"
  by (rule inj_onI) (rule format_tag_inj)

subsection \<open>Event ids\<close>

lemma getOrCreateEventID_registers:
  assumes "getOrCreateEventID sd bf e w = (Inr k, w1)"
  shows "e \<in> set (event_name_list w1) \<and> get_eventID e w1 = Inr k"
proof (cases "e \<in> set (event_name_list w)")
  case True
  with assms show ?thesis by (auto simp: getOrCreateEventID_old)
next
  case False
  show ?thesis
  proof (cases "hkbBehaviorGraphData bf")
    case None
    from getOrCreateEventID_no_data [OF False None, of sd] assms show ?thesis by simp
  next
    case (Some gd)
    from getOrCreateEventID_new [OF False Some, of sd] assms
    have k: "k = int (length (event_name_list w))"
      and l: "event_name_list w1 = event_name_list w @ [e]"
      by (auto simp: gd_add_event_def Let_def split: if_splits)
    from False show ?thesis
      by (simp add: l k get_eventID_def eventIndex_loop_new)
  qed
qed

lemma get_eventID_grows:
  assumes "e \<in> set (event_name_list w)" and "grows w w'"
  shows "e \<in> set (event_name_list w') \<and> get_eventID e w' = get_eventID e w"
proof -
  from assms(2) obtain ys where "event_name_list w' = event_name_list w @ ys"
    by (auto simp: grows_def prefix_def)
  with assms(1) show ?thesis by (simp add: get_eventID_def eventIndex_loop_append)
qed

lemma build_inv_event_tables:
  assumes "build_inv bf w"
  shows "\<exists>sd gd. hkbBehaviorGraphStringData bf = Some sd \<and> hkbBehaviorGraphData bf = Some gd
     \<and> eventNames (data w ! sd) = event_name_list w
     \<and> distinct (event_name_list w)
     \<and> length (eventInfos (data w ! gd)) = length (event_name_list w)
     \<and> numelements (data w ! sd) = py_str (int (length (event_name_list w)))
     \<and> numelements (data w ! gd) = py_str (int (length (event_name_list w)))"
  using assms by (auto simp: build_inv_def attrs_def events_ok_def)

subsection \<open>The finalize step\<close>

lemma tag_states_set [simp]: "tag (states_set l ob) = tag ob"
  by (cases ob) simp_all

lemma tag_at_sm_add_state [simp]: "tag_at (sm_add_state sm st w) a = tag_at w a"
proof (cases "sm < length (data w)")
  case True
  then show ?thesis by (cases "a = sm") (simp_all add: tag_at_def sm_add_state_def Let_def)
next
  case False
  then show ?thesis by (simp add: tag_at_def sm_add_state_def Let_def list_update_beyond)
qed

lemma finalize_loop_eq:
  assumes "sm < length (data w)"
    and "data w ! sm = HkbStateMachine t nm ss n ne sts wc"
  shows "finalize_loop sm es w =
     (if es = [] then w
      else w\<lparr>sm_list_of_states := sm_list_of_states w @ map (\<lambda>e. tag_at w (entry_state e)) es,
              data := (data w)[sm := HkbStateMachine t nm ss (n + int (length es))
                 (py_str (n + int (length es)))
                 (sm_list_of_states w @ map (\<lambda>e. tag_at w (entry_state e)) es) wc]\<rparr>)"
  using assms
proof (induction es arbitrary: w n ne sts)
  case Nil
  then show ?case by simp
next
  case (Cons e es)
  obtain st g tr name where e: "e = (st, g, tr, name)" by (cases e) auto
  let ?wa = "sm_add_state sm st w"
  have l: "sm < length (data ?wa)" using Cons.prems(1) by (simp add: sm_add_state_def Let_def)
  have d: "data ?wa ! sm = HkbStateMachine t nm ss (n + 1) (py_str (n + 1))
      (sm_list_of_states w @ [tag_at w st]) wc"
    using Cons.prems by (simp add: sm_add_state_def Let_def)
  have s: "sm_list_of_states ?wa = sm_list_of_states w @ [tag_at w st]"
    by (simp add: sm_add_state_def Let_def)
  have w1: "?wa = w\<lparr>sm_list_of_states := sm_list_of_states w @ [tag_at w st],
       data := (data w)[sm := HkbStateMachine t nm ss (n + 1) (py_str (n + 1))
      (sm_list_of_states w @ [tag_at w st]) wc]\<rparr>"
    using Cons.prems by (simp add: sm_add_state_def Let_def update_obj_def)
  show ?case
  proof (cases "es = []")
    case True
    then show ?thesis by (simp add: e w1 entry_state_def)
  next
    case False
    have a: "n + 1 + int (length es) = n + int (length (e # es))" by simp
    from False Cons.IH [OF l d] show ?thesis
      unfolding a by (simp add: e s entry_state_def) (simp add: w1)
  qed
qed


lemma finalize_eq:
  assumes gd: "hkbBehaviorGraphData bf = Some gd" "gd < length (data w)"
    and st: "\<forall>e \<in> set (list_of_states w). entry_state e < length (data w)"
  shows "finalize bf w =
    (Inr (),
     bf\<lparr>object_counter := object_counter bf + 2,
        hkbStateMachineObj := Some (length (data w)),
        hkbBehaviorGraphObj := Some (Suc (length (data w)))\<rparr>,
     w\<lparr>sm_list_of_states :=
         sm_list_of_states w @ map (\<lambda>e. tag_at w (entry_state e)) (list_of_states w),
       data := data w @
         [HkbStateMachine (format_tag (object_counter bf + 1)) ''defaultNameBehavior'' (py_str 0)
            (int (length (list_of_states w))) (py_str (int (length (list_of_states w))))
            (if list_of_states w = [] then []
             else sm_list_of_states w @ map (\<lambda>e. tag_at w (entry_state e)) (list_of_states w))
            (case wildcardtransitions bf of Some wt \<Rightarrow> tag_at w wt | None \<Rightarrow> ''null''),
          HkbBehaviorGraph (format_tag (object_counter bf + 2)) ''defaultNameBehavior.hkb''
            (format_tag (object_counter bf + 1)) (tag_at w gd),
          HkRootLevelContainer (format_tag root_index) ''1'' ''hkbBehaviorGraph''
            ''hkbBehaviorGraph'' (format_tag (object_counter bf + 2))]\<rparr>)"
proof -
  let ?c = "object_counter bf" and ?L = "list_of_states w"
  let ?sts = "sm_list_of_states w @ map (\<lambda>e. tag_at w (entry_state e)) ?L"
  let ?wc = "case wildcardtransitions bf of Some wt \<Rightarrow> tag_at w wt | None \<Rightarrow> ''null''"
  let ?fresh = "HkbStateMachine (format_tag (?c + 1)) ''defaultNameBehavior'' (py_str 0) 0
     (py_str 0) [] ?wc"
  let ?sm = "HkbStateMachine (format_tag (?c + 1)) ''defaultNameBehavior'' (py_str 0)
            (int (length ?L)) (py_str (int (length ?L))) (if ?L = [] then [] else ?sts) ?wc"
  let ?wa = "w\<lparr>data := data w @ [?fresh]\<rparr>"
  let ?wb = "w\<lparr>sm_list_of_states := ?sts, data := data w @ [?sm]\<rparr>"
  let ?bfa = "bf\<lparr>object_counter := ?c + 1\<rparr>"
  have i: "hkbStateMachine_init ''defaultNameBehavior'' 0 bf w = (length (data w), ?bfa, ?wa)"
    by (simp add: init_defs)
  have m: "map (\<lambda>e. tag_at ?wa (entry_state e)) ?L = map (\<lambda>e. tag_at w (entry_state e)) ?L"
    using st by (simp add: tag_at_def nth_append)
  have lp: "finalize_loop (length (data w)) (list_of_states ?wa) ?wa = ?wb"
  proof (cases "?L = []")
    case True
    then show ?thesis by simp
  next
    case False
    have "finalize_loop (length (data w)) ?L ?wa =
     (if ?L = [] then ?wa
      else ?wa\<lparr>sm_list_of_states := sm_list_of_states ?wa @ map (\<lambda>e. tag_at ?wa (entry_state e)) ?L,
              data := (data ?wa)[length (data w) := HkbStateMachine (format_tag (?c + 1))
                 ''defaultNameBehavior'' (py_str 0) (0 + int (length ?L))
                 (py_str (0 + int (length ?L)))
                 (sm_list_of_states ?wa @ map (\<lambda>e. tag_at ?wa (entry_state e)) ?L) ?wc]\<rparr>)"
      by (rule finalize_loop_eq) simp_all
    with False show ?thesis unfolding m by simp
  qed
  have b: "hkbBehaviorGraph_init ''defaultNameBehavior''
       (?bfa\<lparr>hkbStateMachineObj := Some (length (data w))\<rparr>) ?wb =
     (Inr (Suc (length (data w))),
      bf\<lparr>object_counter := ?c + 2, hkbStateMachineObj := Some (length (data w))\<rparr>,
      ?wb\<lparr>data := data ?wb @ [HkbBehaviorGraph (format_tag (?c + 2)) ''defaultNameBehavior.hkb''
            (format_tag (?c + 1)) (tag_at w gd)]\<rparr>)"
    using gd by (simp add: hkbBehaviorGraph_init_def OCnext_eq SubElement_data_def tag_at_def
        nth_append Let_def add.commute)
  show ?thesis
    unfolding finalize_def i
    by (simp only: Let_def prod.case lp b sum.case)
      (simp add: SubElement_data_def tag_at_def nth_append add.commute)
qed

lemma build_inv_finalize_pre:
  assumes "build_inv bf w"
  shows "\<exists>gd. hkbBehaviorGraphData bf = Some gd \<and> gd < length (data w)"
    and "\<forall>e \<in> set (list_of_states w). entry_state e < length (data w)"
proof -
  from assms show "\<exists>gd. hkbBehaviorGraphData bf = Some gd \<and> gd < length (data w)"
    by (auto simp: build_inv_def attrs_def)
  from assms have "\<forall>i < length (list_of_states w). entry_ok w i (list_of_states w ! i)"
    by (simp add: build_inv_def states_ok_def)
  then show "\<forall>e \<in> set (list_of_states w). entry_state e < length (data w)"
    unfolding entry_ok_def by (metis in_set_conv_nth)
qed

lemma draft_no_final:
  "draft w \<Longrightarrow> filter (\<lambda>ob. class_of ob \<in> final_classes) (data w) = []"
  by (auto simp: draft_def filter_empty_conv)

subsection \<open>Finalize in any world\<close>

lemma finalize_shape:
  assumes gd: "hkbBehaviorGraphData bf = Some gd"
  shows "\<exists>sts d sl. finalize bf w =
    (Inr (),
     bf\<lparr>object_counter := object_counter bf + 2,
        hkbStateMachineObj := Some (length (data w)),
        hkbBehaviorGraphObj := Some (Suc (length (data w)))\<rparr>,
     w\<lparr>sm_list_of_states := sl,
       data := data w @
         [HkbStateMachine (format_tag (object_counter bf + 1)) ''defaultNameBehavior'' (py_str 0)
            (int (length (list_of_states w))) (py_str (int (length (list_of_states w)))) sts
            (case wildcardtransitions bf of Some wt \<Rightarrow> tag_at w wt | None \<Rightarrow> ''null''),
          HkbBehaviorGraph (format_tag (object_counter bf + 2)) ''defaultNameBehavior.hkb''
            (format_tag (object_counter bf + 1)) d,
          HkRootLevelContainer (format_tag root_index) ''1'' ''hkbBehaviorGraph''
            ''hkbBehaviorGraph'' (format_tag (object_counter bf + 2))]\<rparr>)"
proof -
  let ?c = "object_counter bf" and ?L = "list_of_states w"
  let ?wc = "case wildcardtransitions bf of Some wt \<Rightarrow> tag_at w wt | None \<Rightarrow> ''null''"
  let ?fresh = "HkbStateMachine (format_tag (?c + 1)) ''defaultNameBehavior'' (py_str 0) 0
     (py_str 0) [] ?wc"
  let ?wa = "w\<lparr>data := data w @ [?fresh]\<rparr>"
  let ?bfa = "bf\<lparr>object_counter := ?c + 1\<rparr>"
  have i: "hkbStateMachine_init ''defaultNameBehavior'' 0 bf w = (length (data w), ?bfa, ?wa)"
    by (simp add: init_defs)
  have "\<exists>sts sl. finalize_loop (length (data w)) (list_of_states ?wa) ?wa =
      w\<lparr>sm_list_of_states := sl, data := data w @
        [HkbStateMachine (format_tag (?c + 1)) ''defaultNameBehavior'' (py_str 0)
            (int (length ?L)) (py_str (int (length ?L))) sts ?wc]\<rparr>"
  proof (cases "?L = []")
    case True
    show ?thesis
      by (rule exI [of _ "[]"], rule exI [of _ "sm_list_of_states w"]) (simp add: True)
  next
    case False
    have "finalize_loop (length (data w)) ?L ?wa =
     (if ?L = [] then ?wa
      else ?wa\<lparr>sm_list_of_states := sm_list_of_states ?wa @ map (\<lambda>e. tag_at ?wa (entry_state e)) ?L,
              data := (data ?wa)[length (data w) := HkbStateMachine (format_tag (?c + 1))
                 ''defaultNameBehavior'' (py_str 0) (0 + int (length ?L))
                 (py_str (0 + int (length ?L)))
                 (sm_list_of_states ?wa @ map (\<lambda>e. tag_at ?wa (entry_state e)) ?L) ?wc]\<rparr>)"
      by (rule finalize_loop_eq) simp_all
    with False show ?thesis
      by (intro exI [of _ "sm_list_of_states ?wa @ map (\<lambda>e. tag_at ?wa (entry_state e)) ?L"])
        simp
  qed
  then obtain sts sl where lp: "finalize_loop (length (data w)) (list_of_states ?wa) ?wa =
      w\<lparr>sm_list_of_states := sl, data := data w @
        [HkbStateMachine (format_tag (?c + 1)) ''defaultNameBehavior'' (py_str 0)
            (int (length ?L)) (py_str (int (length ?L))) sts ?wc]\<rparr>"
    by blast
  let ?wb = "w\<lparr>sm_list_of_states := sl, data := data w @
        [HkbStateMachine (format_tag (?c + 1)) ''defaultNameBehavior'' (py_str 0)
            (int (length ?L)) (py_str (int (length ?L))) sts ?wc]\<rparr>"
  have b: "hkbBehaviorGraph_init ''defaultNameBehavior''
       (?bfa\<lparr>hkbStateMachineObj := Some (length (data w))\<rparr>) ?wb =
     (Inr (Suc (length (data w))),
      bf\<lparr>object_counter := ?c + 2, hkbStateMachineObj := Some (length (data w))\<rparr>,
      ?wb\<lparr>data := data ?wb @ [HkbBehaviorGraph (format_tag (?c + 2)) ''defaultNameBehavior.hkb''
            (format_tag (?c + 1)) (tag_at ?wb gd)]\<rparr>)"
    using gd by (simp add: hkbBehaviorGraph_init_def OCnext_eq SubElement_data_def tag_at_def
        nth_append Let_def add.commute)
  show ?thesis
    apply (rule exI [of _ sts], rule exI [of _ "tag_at ?wb gd"], rule exI [of _ sl])
    unfolding finalize_def i
    apply (simp only: Let_def prod.case lp b sum.case)
    apply (simp add: SubElement_data_def tag_at_def nth_append add.commute)
    done
qed

lemma finalize_added:
  assumes "hkbBehaviorGraphData bf = Some gd" and "finalize bf w = (r, bf', w')"
  shows "\<exists>sm bg root. r = Inr () \<and> data w' = data w @ [sm, bg, root]
     \<and> class_of sm = ''hkbStateMachine'' \<and> class_of bg = ''hkbBehaviorGraph''
     \<and> class_of root = ''hkRootLevelContainer''
     \<and> tag sm = format_tag (object_counter bf + 1) \<and> tag bg = format_tag (object_counter bf + 2)
     \<and> tag root = format_tag root_index
     \<and> rootGenerator bg = tag sm \<and> variant root = tag bg \<and> numelements root = ''1''
     \<and> object_counter bf' = object_counter bf + 2
     \<and> hkbBehaviorGraphData bf' = Some gd"
  using finalize_shape [OF assms(1), of w] assms by auto

section \<open>Tags and classes of the added elements\<close>

lemma upto_join: "(i::int) \<le> j \<Longrightarrow> j \<le> k \<Longrightarrow> [i + 1..j] @ [j + 1..k] = [i + 1..k]"
proof (cases "i = j")
  case True
  then show ?thesis by simp
next
  case False
  assume "i \<le> j" "j \<le> k"
  with False have "i + 1 \<le> j" by simp
  from upto_split2 [OF this \<open>j \<le> k\<close>] show ?thesis by simp
qed

lemma builds_refl [simp]: "builds bf w bf w"
  by (simp add: builds_def)

lemma builds_trans:
  assumes "builds bf w bf1 w1" and "builds bf1 w1 bf2 w2"
  shows "builds bf w bf2 w2"
proof -
  from assms have le: "object_counter bf \<le> object_counter bf1"
    "object_counter bf1 \<le> object_counter bf2"
    by (simp_all add: builds_def)
  from assms have "map tag (data w2) = map tag (data w)
      @ map format_tag ([object_counter bf + 1 .. object_counter bf1]
          @ [object_counter bf1 + 1 .. object_counter bf2])"
    by (simp add: builds_def)
  then have t: "map tag (data w2) =
      map tag (data w) @ map format_tag [object_counter bf + 1 .. object_counter bf2]"
    by (simp only: upto_join [OF le])
  from assms obtain cs ds where "map class_of (data w1) = map class_of (data w) @ cs"
    "set cs \<inter> final_classes = {}" "map class_of (data w2) = map class_of (data w1) @ ds"
    "set ds \<inter> final_classes = {}"
    by (auto simp: builds_def)
  then have "map class_of (data w2) = map class_of (data w) @ (cs @ ds)"
    "set (cs @ ds) \<inter> final_classes = {}"
    by auto
  with le t show ?thesis unfolding builds_def by (meson order_trans)
qed

lemma builds_fields [simp]:
  "builds bf w bf' (warning m w') = builds bf w bf' w'"
  "builds bf w bf' (w'\<lparr>list_of_states := l\<rparr>) = builds bf w bf' w'"
  "builds bf w (bf'\<lparr>nStates := n\<rparr>) w' = builds bf w bf' w'"
  "builds bf w (bf'\<lparr>wildcardtransitions := x\<rparr>) w' = builds bf w bf' w'"
  by (simp_all add: builds_def)

lemma builds_update_obj:
  "tag (f (data w' ! a)) = tag (data w' ! a) \<Longrightarrow> class_of (f (data w' ! a)) = class_of (data w' ! a)
    \<Longrightarrow> builds bf w bf' (update_obj a f w') = builds bf w bf' w'"
  by (simp add: builds_def)

lemma builds_same_objects: "same_objects w w' \<Longrightarrow> builds bf w bf w'"
  by (simp add: builds_def same_objects_def)

lemma builds_alloc:
  "tag ob = format_tag (object_counter bf + 1) \<Longrightarrow> class_of ob \<notin> final_classes
    \<Longrightarrow> builds bf w (bf\<lparr>object_counter := object_counter bf + 1\<rparr>) (w\<lparr>data := data w @ [ob]\<rparr>)"
  by (simp add: builds_def)

lemma init_builds:
  "hkbStateMachineTransitionInfoArray_init bf w = (a, bf1, w1) \<Longrightarrow> builds bf w bf1 w1"
  "hkbClipGenerator_init n p t l bf w = (a, bf1, w1) \<Longrightarrow> builds bf w bf1 w1"
  "BGSGamebryoSequenceGenerator_init n bf w = (a, bf1, w1) \<Longrightarrow> builds bf w bf1 w1"
  "hkbStateMachineStateInfo_init g tr n i en ex bf w = (a, bf1, w1) \<Longrightarrow> builds bf w bf1 w1"
  "hkbClipTriggerArray_init bf w = (a, bf1, w1) \<Longrightarrow> builds bf w bf1 w1"
  by (auto simp: init_defs final_classes_def intro!: builds_alloc split: sum.splits)

lemma notify_events_builds:
  assumes "notify_events ev bf w = (r, bf', w')"
  shows "builds bf w bf' w'"
proof -
  from notify_events_frame [OF assms]
  consider "bf' = bf" "same_objects w w'"
    | ob where "bf' = bf\<lparr>object_counter := object_counter bf + 1\<rparr>"
      "same_objects (w\<lparr>data := data w @ [ob]\<rparr>) w'"
      "tag ob = format_tag (object_counter bf + 1)"
      "class_of ob = ''hkbStateMachineEventPropertyArray''"
    by auto
  then show ?thesis
  proof cases
    case 1
    then show ?thesis by (simp add: builds_same_objects)
  next
    case 2
    have "builds bf w bf' (w\<lparr>data := data w @ [ob]\<rparr>)"
      unfolding 2(1) by (rule builds_alloc) (simp_all add: 2 final_classes_def)
    moreover from 2(2) have "builds bf' (w\<lparr>data := data w @ [ob]\<rparr>) bf' w'"
      by (rule builds_same_objects)
    ultimately show ?thesis by (rule builds_trans)
  qed
qed


lemma add_state_builds:
  assumes "add_state n p l g en ex bf w = (r, bf', w')"
  shows "builds bf w bf' w'"
proof (cases "(\<not> g \<and> p = ''placeholder'') \<or> name_in_project (list_of_states w) n")
  case True
  with assms show ?thesis by (auto simp: add_state_def split: if_splits)
next
  case False
  obtain tr bf1 w1 where 1: "hkbStateMachineTransitionInfoArray_init bf w = (tr, bf1, w1)"
    by (cases "hkbStateMachineTransitionInfoArray_init bf w")
  obtain gen bf2 w2 where 2:
    "(if \<not> g then hkbClipGenerator_init n p (Inl ''null'') l bf1 w1
      else BGSGamebryoSequenceGenerator_init n bf1 w1) = (gen, bf2, w2)"
    by (cases "if \<not> g then hkbClipGenerator_init n p (Inl ''null'') l bf1 w1
      else BGSGamebryoSequenceGenerator_init n bf1 w1")
  from 2 have "builds bf1 w1 bf2 w2"
    by (auto dest: init_builds split: if_splits)
  with init_builds(1) [OF 1] have a: "builds bf w bf2 w2" by (rule builds_trans)
  obtain r3 bf3 w3 where 3: "notify_events en bf2 w2 = (r3, bf3, w3)"
    by (cases "notify_events en bf2 w2")
  from a notify_events_builds [OF 3] have b: "builds bf w bf3 w3" by (rule builds_trans)
  show ?thesis
  proof (cases r3)
    case (Inl e)
    with assms False 1 2 3 b show ?thesis by (auto simp: add_state_def)
  next
    case (Inr enter)
    obtain r4 bf4 w4 where 4: "notify_events ex bf3 w3 = (r4, bf4, w4)"
      by (cases "notify_events ex bf3 w3")
    from b notify_events_builds [OF 4] have c: "builds bf w bf4 w4" by (rule builds_trans)
    show ?thesis
    proof (cases r4)
      case (Inl e)
      with assms False 1 2 3 4 Inr c show ?thesis by (auto simp: add_state_def)
    next
      case exit: (Inr exit)
      obtain st bf5 w5 where 5:
        "hkbStateMachineStateInfo_init gen tr n (nStates bf4) enter exit bf4 w4 = (st, bf5, w5)"
        by (cases "hkbStateMachineStateInfo_init gen tr n (nStates bf4) enter exit bf4 w4")
      from c init_builds(4) [OF 5] have d: "builds bf w bf5 w5" by (rule builds_trans)
      from assms False 1 2 3 4 5 Inr exit
      have "bf' = bf5\<lparr>nStates := nStates bf5 + 1\<rparr>"
        "\<exists>m. w' = warning m (w5\<lparr>list_of_states := list_of_states w5 @ [(st, gen, tr, n)]\<rparr>)"
        by (auto simp: add_state_def Let_def)
      with d show ?thesis by auto
    qed
  qed
qed

lemma getOrCreateClipTriggerArray_builds:
  assumes "getOrCreateClipTriggerArray st bf w = (c, bf', w')"
  shows "builds bf w bf' w'"
proof (cases "hkbClipTriggerArray_of (data w ! st)")
  case None
  obtain a bf1 w1 where 1: "hkbClipTriggerArray_init bf w = (a, bf1, w1)"
    by (cases "hkbClipTriggerArray_init bf w")
  with assms None have "bf' = bf1" "w' = update_obj st (hkbClipTriggerArray_set a) w1"
    by (auto simp: getOrCreateClipTriggerArray_def)
  with init_builds(5) [OF 1] show ?thesis by (simp add: builds_update_obj)
next
  case (Some a)
  with assms show ?thesis by (simp add: getOrCreateClipTriggerArray_def)
qed

lemma add_clip_trigger_builds:
  assumes "add_clip_trigger s e rel lt bf w = (r, bf', w')"
  shows "builds bf w bf' w'"
proof -
  obtain found vars where l: "state_loop (list_of_states w) s None = (found, vars)"
    by (cases "state_loop (list_of_states w) s None")
  let ?w1 = "if found then w
             else warning (''add_clip_trigger error, state '' @ s @ '' doesnt exist'') w"
  have g1: "builds bf w bf ?w1" by simp
  show ?thesis
  proof (cases vars)
    case None
    with assms l show ?thesis by (auto simp: add_clip_trigger_def Let_def split: if_splits)
  next
    case (Some ent)
    obtain st gen tr nm where ent: "ent = (st, gen, tr, nm)" by (cases ent)
    show ?thesis
    proof (cases "isinstance_BGSGamebryoSequenceGenerator (data ?w1 ! gen)")
      case True
      with assms l Some ent show ?thesis
        by (auto simp: add_clip_trigger_def Let_def split: if_splits)
    next
      case False
      obtain c bf2 w2 where 2: "getOrCreateClipTriggerArray st bf ?w1 = (c, bf2, w2)"
        by (cases "getOrCreateClipTriggerArray st bf ?w1")
      from g1 getOrCreateClipTriggerArray_builds [OF 2]
      have a: "builds bf w bf2 w2" by (rule builds_trans)
      show ?thesis
      proof (cases "hkbBehaviorGraphStringData bf2")
        case None
        with assms l Some ent False 2 a show ?thesis
          by (auto simp: add_clip_trigger_def Let_def split: if_splits)
      next
        case sd: (Some sd)
        obtain r3 w3 where 3: "getOrCreateEventID sd bf2 e w2 = (r3, w3)"
          by (cases "getOrCreateEventID sd bf2 e w2")
        from a builds_same_objects [OF getOrCreateEventID_same_objects [OF 3]]
        have b: "builds bf w bf2 w3" by (rule builds_trans)
        from assms l Some ent False 2 sd 3
        have "bf' = bf2 \<and> (w' = w3 \<or> w' = update_obj c triggers_unfinished w3
            \<or> (\<exists>i. w' = set_trigger gen c (update_obj c (triggers_append lt i rel) w3)))"
          by (auto simp: add_clip_trigger_def add_trigger_def Let_def
              split: if_splits sum.splits)
        with b show ?thesis
          by (auto simp: method_defs builds_update_obj)
      qed
    qed
  qed
qed

lemma connect_states_builds:
  assumes "connect_states s1 s2 e bf w = (r, bf', w')"
  shows "builds bf w bf' w'"
proof (cases "s1 = s2")
  case True
  with assms show ?thesis by (simp add: connect_states_def)
next
  case False
  obtain found1 vars1 where l1: "state_loop (list_of_states w) s1 None = (found1, vars1)"
    by (cases "state_loop (list_of_states w) s1 None")
  obtain found2 vars2 where l2: "state_loop (list_of_states w) s2 None = (found2, vars2)"
    by (cases "state_loop (list_of_states w) s2 None")
  let ?w1 = "if found1 then w
             else warning (''connect_states error, state1 '' @ s1 @ '' doesnt exist'') w"
  let ?w2 = "if found2 then ?w1
             else warning (''connect_states error, state2 '' @ s2 @ '' doesnt exist'') ?w1"
  have g: "builds bf w bf ?w2" by simp
  show ?thesis
  proof (cases "hkbBehaviorGraphStringData bf")
    case None
    with assms False l1 l2 g show ?thesis
      by (auto simp: connect_states_def Let_def split: if_splits)
  next
    case (Some sd)
    obtain r3 w3 where 3: "getOrCreateEventID sd bf e ?w2 = (r3, w3)"
      by (cases "getOrCreateEventID sd bf e ?w2")
    from g builds_same_objects [OF getOrCreateEventID_same_objects [OF 3]]
    have b: "builds bf w bf w3" by (rule builds_trans)
    from assms False l1 l2 Some 3
    have "bf' = bf \<and> (w' = w3 \<or> (\<exists>a i j t m. w' = warning m (add_transition a i j t ''null'' False w3)))"
      by (simp add: connect_states_def Let_def split: if_splits sum.splits option.splits prod.splits)
         blast+
    with b show ?thesis
      by (auto simp: method_defs builds_update_obj)
  qed
qed

lemma add_wildcard_builds:
  assumes "add_wildcard s e bf w = (r, bf', w')"
  shows "builds bf w bf' w'"
proof -
  obtain found vars where l: "state_loop (list_of_states w) s None = (found, vars)"
    by (cases "state_loop (list_of_states w) s None")
  show ?thesis
  proof (cases "found \<and> vars \<noteq> None \<and> hkbBehaviorGraphStringData bf \<noteq> None")
    case False
    with assms l show ?thesis
      by (auto simp: add_wildcard_def split: bool.splits option.splits)
  next
    case True
    then obtain sd where sd: "hkbBehaviorGraphStringData bf = Some sd" by auto
    obtain r1 w1 where 1: "getOrCreateEventID sd bf e w = (r1, w1)"
      by (cases "getOrCreateEventID sd bf e w")
    from builds_same_objects [OF getOrCreateEventID_same_objects [OF 1]]
    have b: "builds bf w bf w1" .
    obtain wt bf2 w2 where 2: "getOrCreatewildcardtransitions bf w1 = (wt, bf2, w2)"
      by (cases "getOrCreatewildcardtransitions bf w1")
    have c: "builds bf w1 bf2 w2"
    proof (cases "wildcardtransitions bf")
      case None
      obtain a bf3 w3 where 3: "hkbStateMachineTransitionInfoArray_init bf w1 = (a, bf3, w3)"
        by (cases "hkbStateMachineTransitionInfoArray_init bf w1")
      with 2 None have "bf2 = bf3\<lparr>wildcardtransitions := Some a\<rparr>" "w2 = w3"
        by (auto simp: getOrCreatewildcardtransitions_def)
      with init_builds(1) [OF 3] show ?thesis by simp
    next
      case (Some a)
      with 2 show ?thesis by (simp add: getOrCreatewildcardtransitions_def)
    qed
    from b c have d: "builds bf w bf2 w2" by (rule builds_trans)
    from True obtain ent where vars: "vars = Some ent" by auto
    obtain st gen tr nm where ent: "ent = (st, gen, tr, nm)" by (cases ent)
    show ?thesis
    proof (cases r1)
      case (Inl err)
      with assms l True sd 1 vars ent b show ?thesis by (simp add: add_wildcard_def)
    next
      case (Inr i)
      show ?thesis
      proof (cases "blend_effect bf2")
        case None
        with assms l True sd 1 2 vars ent Inr d show ?thesis by (simp add: add_wildcard_def)
      next
        case (Some be)
        with assms l True sd 1 2 vars ent Inr d show ?thesis
          by (auto simp: add_wildcard_def Let_def method_defs builds_update_obj)
      qed
    qed
  qed
qed

lemma run_op_builds: "run_op x bf w = (r, bf', w') \<Longrightarrow> builds bf w bf' w'"
  by (cases x)
     (auto dest: add_state_builds add_clip_trigger_builds connect_states_builds add_wildcard_builds)

section \<open>Processes\<close>

lemma count_class_map:
  "count_class k w = length (filter (\<lambda>c. c = k) (map class_of (data w)))"
  by (simp add: count_class_def filter_map comp_def)

lemma builds_issued:
  assumes "builds bf w bf' w'"
  shows "issued w w' = map format_tag [object_counter bf + 1 .. object_counter bf']"
    and "k \<in> final_classes \<Longrightarrow> count_class k w' = count_class k w"
proof -
  from assms obtain cs where
    t: "map tag (data w') =
         map tag (data w) @ map format_tag [object_counter bf + 1 .. object_counter bf']"
    and c: "map class_of (data w') = map class_of (data w) @ cs"
    and f: "set cs \<inter> final_classes = {}"
    by (auto simp: builds_def)
  have "map class_of (added w w') = drop (length (data w)) (map class_of (data w'))"
    by (simp add: added_def drop_map)
  also have "\<dots> = cs" unfolding c by simp
  finally have "set (map class_of (added w w')) \<inter> final_classes = {}" using f by simp
  then have "\<forall>ob \<in> set (added w w'). class_of ob \<noteq> ''hkRootLevelContainer''"
    by (simp add: final_classes_def) (metis imageI)
  then have "filter (\<lambda>ob. class_of ob \<noteq> ''hkRootLevelContainer'') (added w w') = added w w'"
    by simp
  then have "issued w w' = drop (length (data w)) (map tag (data w'))"
    by (simp add: issued_def added_def drop_map)
  then show "issued w w' = map format_tag [object_counter bf + 1 .. object_counter bf']"
    unfolding t by simp
  assume "k \<in> final_classes"
  with f have "filter (\<lambda>c. c = k) cs = []" by (auto simp: filter_empty_conv)
  then show "count_class k w' = count_class k w"
    by (simp add: count_class_map c)
qed

lemma upto_two: "[c + 1 .. c + 2] = [c + 1, c + (2::int)]"
  by (simp add: upto_rec1)

lemma run_call_facts:
  assumes g: "hkbBehaviorGraphData bf \<noteq> None" and r: "run_call c bf w = (bf', w')"
  shows "hkbBehaviorGraphData bf' \<noteq> None"
    and "object_counter bf \<le> object_counter bf'"
    and "issued w w' = map format_tag [object_counter bf + 1 .. object_counter bf']"
    and "k \<in> final_classes \<Longrightarrow>
           count_class k w' = count_class k w + (if c = Export then 1 else 0)"
proof -
  have "hkbBehaviorGraphData bf' \<noteq> None
    \<and> object_counter bf \<le> object_counter bf'
    \<and> issued w w' = map format_tag [object_counter bf + 1 .. object_counter bf']
    \<and> (k \<in> final_classes \<longrightarrow>
           count_class k w' = count_class k w + (if c = Export then 1 else 0))"
  proof (cases c)
    case (Build x)
    obtain res where x: "run_op x bf w = (res, bf', w')"
      using r Build by (cases "run_op x bf w") simp
    from run_op_grows [OF x] g have "hkbBehaviorGraphData bf' \<noteq> None"
      by (simp add: keeps_def)
    moreover from run_op_builds [OF x] have b: "builds bf w bf' w'" .
    then have "object_counter bf \<le> object_counter bf'" by (simp add: builds_def)
    ultimately show ?thesis using builds_issued [OF b] Build by simp
  next
    case Export
    from g obtain gd where gd: "hkbBehaviorGraphData bf = Some gd" by auto
    obtain res bf1 w1 where f: "finalize bf w = (res, bf1, w1)" by (cases "finalize bf w")
    from finalize_added [OF gd f] obtain sm bg root where
      res: "res = Inr ()" and d: "data w1 = data w @ [sm, bg, root]"
      and cl: "class_of sm = ''hkbStateMachine''" "class_of bg = ''hkbBehaviorGraph''"
        "class_of root = ''hkRootLevelContainer''"
      and tg: "tag sm = format_tag (object_counter bf + 1)"
        "tag bg = format_tag (object_counter bf + 2)"
      and oc: "object_counter bf1 = object_counter bf + 2"
      and g1: "hkbBehaviorGraphData bf1 = Some gd"
      by blast
    from r Export f res have e: "bf' = bf1" "w' = w1" by (simp_all add: export_def)
    have "issued w w1 = map format_tag [object_counter bf + 1 .. object_counter bf1]"
      by (simp add: issued_def added_def d cl tg oc upto_two)
    moreover have "k \<in> final_classes \<Longrightarrow> count_class k w1 = count_class k w + 1"
      by (auto simp: count_class_def d cl final_classes_def)
    ultimately show ?thesis using Export e oc g1 by simp
  qed
  then show "hkbBehaviorGraphData bf' \<noteq> None"
    and "object_counter bf \<le> object_counter bf'"
    and "issued w w' = map format_tag [object_counter bf + 1 .. object_counter bf']"
    and "k \<in> final_classes \<Longrightarrow>
           count_class k w' = count_class k w + (if c = Export then 1 else 0)"
    by simp_all
qed

lemma upto_52_55': "[root_index + 1 .. 55] = [52, 53, 54, 55]"
  by (simp add: root_index_def upto.simps)

lemma new_BehaviorFile_facts:
  "\<exists>bf w'. new_BehaviorFile w = (Inr bf, w') \<and> hkbBehaviorGraphData bf \<noteq> None
     \<and> object_counter bf = 55
     \<and> issued w w' = map format_tag [root_index + 1 .. 55]
     \<and> (\<forall>k \<in> final_classes. count_class k w' = count_class k w)"
  by (simp add: new_BehaviorFile_eq issued_def added_def upto_52_55' count_class_def
      final_classes_def)


lemma step_facts:
  assumes rd: "ready bfs" and st: "step a (bfs, w) = (bfs1, w1)"
  shows "ready bfs1 \<and> length bfs \<le> length bfs1
    \<and> (\<forall>i. counter_at bfs i \<le> counter_at bfs1 i
          \<and> (if acts_on i a bfs then issued w w1 else []) =
              map format_tag [counter_at bfs i + 1 .. counter_at bfs1 i])
    \<and> (\<forall>k \<in> final_classes. count_class k w1 = count_class k w
          + (case a of Invoke i Export \<Rightarrow> (if i < length bfs then 1 else 0) | _ \<Rightarrow> 0))"
proof (cases a)
  case Create
  from new_BehaviorFile_facts [of w] obtain bf w' where
    n: "new_BehaviorFile w = (Inr bf, w')" and g: "hkbBehaviorGraphData bf \<noteq> None"
    and c: "object_counter bf = 55"
    and i: "issued w w' = map format_tag [root_index + 1 .. 55]"
    and k: "\<forall>k \<in> final_classes. count_class k w' = count_class k w"
    by blast
  from st Create n have e: "bfs1 = bfs @ [bf]" "w1 = w'" by simp_all
  have "counter_at bfs j \<le> counter_at bfs1 j
     \<and> (if acts_on j a bfs then issued w w1 else []) =
              map format_tag [counter_at bfs j + 1 .. counter_at bfs1 j]" for j
  proof (cases "j = length bfs")
    case True
    then show ?thesis
      by (simp add: Create e counter_at_def c i root_index_def)
  next
    case False
    then have "counter_at bfs1 j = counter_at bfs j"
      by (auto simp: counter_at_def e nth_append)
    with False show ?thesis by (simp add: Create)
  qed
  with rd g k show ?thesis by (simp add: Create e ready_def)
next
  case (Invoke j c)
  show ?thesis
  proof (cases "j < length bfs")
    case False
    with st Invoke have "bfs1 = bfs" "w1 = w" by simp_all
    with rd False show ?thesis by (simp add: Invoke split: call.splits)
  next
    case True
    obtain bf' w' where r: "run_call c (bfs ! j) w = (bf', w')"
      by (cases "run_call c (bfs ! j) w")
    with st Invoke True have e: "bfs1 = bfs[j := bf']" "w1 = w'" by simp_all
    from rd True have g: "hkbBehaviorGraphData (bfs ! j) \<noteq> None" by (simp add: ready_def)
    note f = run_call_facts [OF g r]
    have rd1: "ready bfs1"
      unfolding ready_def e
    proof
      fix x assume "x \<in> set (bfs[j := bf'])"
      with set_update_subset_insert [of bfs j bf'] have "x = bf' \<or> x \<in> set bfs" by auto
      with f(1) rd show "hkbBehaviorGraphData x \<noteq> None" by (auto simp: ready_def)
    qed
    have "counter_at bfs i \<le> counter_at bfs1 i
     \<and> (if acts_on i a bfs then issued w w1 else []) =
              map format_tag [counter_at bfs i + 1 .. counter_at bfs1 i]" for i
    proof (cases "i = j")
      case True': True
      with True f(2,3) show ?thesis by (simp add: Invoke e counter_at_def)
    next
      case False
      then have "counter_at bfs1 i = counter_at bfs i"
        by (simp add: counter_at_def e)
      with False show ?thesis by (simp add: Invoke)
    qed
    moreover have "\<forall>k \<in> final_classes. count_class k w1 = count_class k w
          + (case a of Invoke i Export \<Rightarrow> (if i < length bfs then 1 else 0) | _ \<Rightarrow> 0)"
      using f(4) True by (simp add: Invoke e split: call.splits)
    ultimately show ?thesis using rd1 by (simp add: e)
  qed
qed

lemma run_facts:
  assumes "ready bfs" and "run as (bfs, w) = (bfs', w')"
  shows "ready bfs' \<and> length bfs \<le> length bfs'
    \<and> (\<forall>i. counter_at bfs i \<le> counter_at bfs' i
          \<and> issued_by i as (bfs, w) = map format_tag [counter_at bfs i + 1 .. counter_at bfs' i])
    \<and> (\<forall>k \<in> final_classes. count_class k w' = count_class k w + finalizes as (bfs, w))"
  using assms
proof (induction as arbitrary: bfs w)
  case Nil
  then show ?case by simp
next
  case (Cons a as)
  obtain bfs1 w1 where s: "step a (bfs, w) = (bfs1, w1)" by (cases "step a (bfs, w)")
  note f = step_facts [OF Cons.prems(1) s]
  from f have rd1: "ready bfs1" by simp
  from Cons.prems(2) s have r: "run as (bfs1, w1) = (bfs', w')" by simp
  note h = Cons.IH [OF rd1 r]
  have "counter_at bfs i \<le> counter_at bfs' i
     \<and> issued_by i (a # as) (bfs, w) = map format_tag [counter_at bfs i + 1 .. counter_at bfs' i]"
    for i
  proof -
    from f h have le: "counter_at bfs i \<le> counter_at bfs1 i" "counter_at bfs1 i \<le> counter_at bfs' i"
      by simp_all
    from f have 1: "(if acts_on i a bfs then issued w w1 else []) =
        map format_tag [counter_at bfs i + 1 .. counter_at bfs1 i]" by simp
    from h have 2: "issued_by i as (bfs1, w1) =
        map format_tag [counter_at bfs1 i + 1 .. counter_at bfs' i]" by simp
    have "issued_by i (a # as) (bfs, w) =
        (if acts_on i a bfs then issued w w1 else []) @ issued_by i as (bfs1, w1)"
      by (simp add: s)
    then have "issued_by i (a # as) (bfs, w) =
        map format_tag ([counter_at bfs i + 1 .. counter_at bfs1 i]
           @ [counter_at bfs1 i + 1 .. counter_at bfs' i])"
      unfolding 1 2 by simp
    with le show ?thesis by (simp only: upto_join [OF le]) simp
  qed
  moreover have "\<forall>k \<in> final_classes. count_class k w' = count_class k w
      + finalizes (a # as) (bfs, w)"
    using f h by (simp add: s split: action.splits call.splits)
  moreover from f h have "ready bfs'" "length bfs \<le> length bfs'" by simp_all
  ultimately show ?case by blast
qed

lemma ready_Nil [simp]: "ready []"
  by (simp add: ready_def)

lemma counter_at_Nil [simp]: "counter_at [] i = root_index"
  by (simp add: counter_at_def)

lemma count_class_init [simp]: "count_class k init_world = 0"
  by (simp add: count_class_def init_world_def)

lemma process_facts:
  assumes "process as = (bfs, w)"
  shows "ready bfs"
    and "i < length bfs \<Longrightarrow> issued_by i as ([], init_world) =
           map format_tag [root_index + 1 .. object_counter (bfs ! i)]"
    and "k \<in> final_classes \<Longrightarrow> count_class k w = finalizes as ([], init_world)"
  using run_facts [OF ready_Nil assms [unfolded process_def]]
  by (simp_all add: counter_at_def)

lemma format_tag_root_index: "format_tag root_index = ''#0051''"
  by code_simp

section \<open>Finalize\<close>




section \<open>Clip triggers on a legacy state\<close>

text \<open>
  C9. A state registered by \<^verbatim>\<open>add_state\<close> with \<^verbatim>\<open>gamebryoanim=True\<close> (its name was free, so
  the call went through) has a \<^verbatim>\<open>BGSGamebryoSequenceGenerator\<close>. After any further calls
  of the mutation API, \<^verbatim>\<open>add_clip_trigger\<close> on that name raises \<^verbatim>\<open>TypeError\<close>, whatever the
  event, the time and the flag are, and leaves the instance and the world as they were.
\<close>

theorem legacy_state_rejects_clip_trigger:
  assumes "\<not> name_in_project (list_of_states w) name"
    and "add_state name animation_path looping True enter exit bf w = (Inr (), bf1, w1)"
    and "run_ops ops (bf1, w1) = (bf2, w2)"
  shows "add_clip_trigger name event rel lt bf2 w2 = (Inl TypeError, bf2, w2)"
proof -
  from add_state_legacy_registers [OF assms(1,2)] obtain st where
    l1: "list_of_states w1
          = list_of_states w @ [(st, Suc (length (data w)), length (data w), name)]"
    and a: "Suc (length (data w)) < length (data w1)"
    and c: "class_of (data w1 ! Suc (length (data w))) = ''BGSGamebryoSequenceGenerator''"
    by blast
  from run_ops_grows [OF assms(3)] have g: "grows w1 w2" by simp
  from grows_prefix_states [OF g] l1 obtain ys where
    l2: "list_of_states w2
          = list_of_states w @ (st, Suc (length (data w)), length (data w), name) # ys"
    by auto
  from grows_class_of [OF g a] c
  have "isinstance_BGSGamebryoSequenceGenerator (data w2 ! Suc (length (data w)))"
    by (simp add: isinstance_BGSGamebryoSequenceGenerator_iff)
  moreover have "state_loop (list_of_states w2) name None
      = (True, Some (st, Suc (length (data w)), length (data w), name))"
    unfolding l2 using assms(1) by (rule state_loop_found)
  ultimately show ?thesis
    by (simp add: add_clip_trigger_def)
qed

theorem legacy_state_rejects_clip_trigger_witness:
  "case script [Add_state ''A'' ''a.hkx'' True False (EvStr ''null'') (EvStr ''null'')] of
     None \<Rightarrow> False
   | Some (bf, w) \<Rightarrow>
       \<not> name_in_project (list_of_states w) ''B''
       \<and> (case add_state ''B'' ''placeholder'' False True (EvStr ''in'') (EvStr ''null'') bf w of
            (r, bf1, w1) \<Rightarrow>
              r = Inr ()
              \<and> (case run_ops [Connect_states ''A'' ''B'' ''go'',
                               Add_clip_trigger ''A'' ''half'' False (PyFloat 1 (- 1))] (bf1, w1) of
                   (bf2, w2) \<Rightarrow>
                     add_clip_trigger ''B'' ''ev'' True (PyInt 0) bf2 w2 = (Inl TypeError, bf2, w2)))"
proof -
  obtain bf w where s:
    "script [Add_state ''A'' ''a.hkx'' True False (EvStr ''null'') (EvStr ''null'')] = Some (bf, w)"
    using script_Some by blast
  have "case script [Add_state ''A'' ''a.hkx'' True False (EvStr ''null'') (EvStr ''null'')] of
     None \<Rightarrow> False
   | Some (bf, w) \<Rightarrow>
       \<not> name_in_project (list_of_states w) ''B''
       \<and> fst (add_state ''B'' ''placeholder'' False True (EvStr ''in'') (EvStr ''null'') bf w)
           = Inr ()"
    by code_simp
  with s have h1: "\<not> name_in_project (list_of_states w) ''B''"
    and r: "fst (add_state ''B'' ''placeholder'' False True (EvStr ''in'') (EvStr ''null'') bf w)
           = Inr ()"
    by simp_all
  obtain r1 bf1 w1 where h2:
    "add_state ''B'' ''placeholder'' False True (EvStr ''in'') (EvStr ''null'') bf w = (r1, bf1, w1)"
    by (cases "add_state ''B'' ''placeholder'' False True (EvStr ''in'') (EvStr ''null'') bf w")
  with r have r1: "r1 = Inr ()" by simp
  obtain bf2 w2 where h3:
    "run_ops [Connect_states ''A'' ''B'' ''go'',
              Add_clip_trigger ''A'' ''half'' False (PyFloat 1 (- 1))] (bf1, w1) = (bf2, w2)"
    by (cases "run_ops [Connect_states ''A'' ''B'' ''go'',
              Add_clip_trigger ''A'' ''half'' False (PyFloat 1 (- 1))] (bf1, w1)")
  from legacy_state_rejects_clip_trigger [OF h1 h2 [unfolded r1] h3]
  have "add_clip_trigger ''B'' ''ev'' True (PyInt 0) bf2 w2 = (Inl TypeError, bf2, w2)" .
  with s h1 h2 r1 h3 show ?thesis by simp
qed

section \<open>The tag allocator\<close>

text \<open>
  C2. In any process, with any number of instances created and called in any order
  (calls of the mutation API and \<^verbatim>\<open>export\<close>), the tags \<^verbatim>\<open>_OCnext\<close> has issued to an
  instance, in the order of issue, are the formatted numbers from \<open>root_index + 1\<close> up to
  the counter of the instance. So each tag is greater as a number than every tag issued
  to the instance before it, no tag is issued twice, and the next tag the allocator
  returns is greater than, and different from, all of them.
\<close>

theorem tags_strictly_increasing:
  assumes "process as = (bfs, w)" and "i < length bfs"
  shows "issued_by i as ([], init_world) =
           map format_tag [root_index + 1 .. object_counter (bfs ! i)]
     \<and> sorted_wrt (<) (map tag_number (issued_by i as ([], init_world)))
     \<and> distinct (issued_by i as ([], init_world))
     \<and> (\<forall>t \<in> set (issued_by i as ([], init_world)).
           tag_number t < tag_number (fst (OCnext (bfs ! i))) \<and> t \<noteq> fst (OCnext (bfs ! i)))"
proof -
  let ?ts = "issued_by i as ([], init_world)"
  from process_facts(2) [OF assms]
  have t: "?ts = map format_tag [root_index + 1 .. object_counter (bfs ! i)]" .
  have n: "map tag_number ?ts = [root_index + 1 .. object_counter (bfs ! i)]"
    unfolding t by (simp add: tag_number_format_tag comp_def)
  have so: "sorted_wrt (<) (map tag_number ?ts)"
    unfolding n by (simp add: strict_sorted_iff)
  have d: "distinct ?ts"
    unfolding t by (simp add: distinct_map inj_format_tag)
  have "tag_number x < tag_number (fst (OCnext (bfs ! i))) \<and> x \<noteq> fst (OCnext (bfs ! i))"
    if x: "x \<in> set ?ts" for x
  proof -
    from x t obtain k where "x = format_tag k" "k \<le> object_counter (bfs ! i)" by auto
    then have "tag_number x < tag_number (fst (OCnext (bfs ! i)))"
      by (simp add: OCnext_eq tag_number_format_tag)
    then show ?thesis by auto
  qed
  with t so d show ?thesis by blast
qed

theorem tags_strictly_increasing_witness:
  "1 < length (fst (process
       [Create, Create,
        Invoke 0 (Build (Add_state ''A'' ''a.hkx'' False False (EvStr ''null'') (EvStr ''null''))),
        Invoke 1 (Build (Add_state ''B'' ''b.hkx'' False False (EvStr ''null'') (EvStr ''null''))),
        Invoke 0 Export, Invoke 1 Export]))
   \<and> issued_by 1
       [Create, Create,
        Invoke 0 (Build (Add_state ''A'' ''a.hkx'' False False (EvStr ''null'') (EvStr ''null''))),
        Invoke 1 (Build (Add_state ''B'' ''b.hkx'' False False (EvStr ''null'') (EvStr ''null''))),
        Invoke 0 Export, Invoke 1 Export] ([], init_world) =
      [''#0052'', ''#0053'', ''#0054'', ''#0055'', ''#0056'', ''#0057'', ''#0058'', ''#0059'',
       ''#0060'']
   \<and> distinct (issued_by 1
       [Create, Create,
        Invoke 0 (Build (Add_state ''A'' ''a.hkx'' False False (EvStr ''null'') (EvStr ''null''))),
        Invoke 1 (Build (Add_state ''B'' ''b.hkx'' False False (EvStr ''null'') (EvStr ''null''))),
        Invoke 0 Export, Invoke 1 Export] ([], init_world))
   \<and> tag_number ''#0060'' < tag_number (fst (OCnext (fst (process
       [Create, Create,
        Invoke 0 (Build (Add_state ''A'' ''a.hkx'' False False (EvStr ''null'') (EvStr ''null''))),
        Invoke 1 (Build (Add_state ''B'' ''b.hkx'' False False (EvStr ''null'') (EvStr ''null''))),
        Invoke 0 Export, Invoke 1 Export]) ! 1)))"
proof -
  let ?as = "[Create, Create,
        Invoke 0 (Build (Add_state ''A'' ''a.hkx'' False False (EvStr ''null'') (EvStr ''null''))),
        Invoke 1 (Build (Add_state ''B'' ''b.hkx'' False False (EvStr ''null'') (EvStr ''null''))),
        Invoke 0 Export, Invoke 1 Export]"
  have l: "1 < length (fst (process ?as))" by code_simp
  have e: "issued_by 1 ?as ([], init_world) =
      [''#0052'', ''#0053'', ''#0054'', ''#0055'', ''#0056'', ''#0057'', ''#0058'', ''#0059'',
       ''#0060'']"
    by code_simp
  have p: "process ?as = (fst (process ?as), snd (process ?as))" by simp
  have m: "''#0060'' \<in> set (issued_by 1 ?as ([], init_world))" unfolding e by simp
  from tags_strictly_increasing [OF p l]
  have "distinct (issued_by 1 ?as ([], init_world))"
    and "\<forall>t \<in> set (issued_by 1 ?as ([], init_world)).
           tag_number t < tag_number (fst (OCnext (fst (process ?as) ! 1)))
           \<and> t \<noteq> fst (OCnext (fst (process ?as) ! 1))"
    by blast+
  with m have "distinct (issued_by 1 ?as ([], init_world))"
    and "tag_number ''#0060'' < tag_number (fst (OCnext (fst (process ?as) ! 1)))"
    by blast+
  with l e show ?thesis by blast
qed

section \<open>The event tables\<close>



section \<open>Calls that name an unknown state\<close>

text \<open>
  C3. \<^verbatim>\<open>connect_states\<close> with a source name that no state has logs its warning and goes on:
  with one state \<open>A\<close> in the project, \<^verbatim>\<open>connect_states("B", "A", "go")\<close> returns normally,
  registers the event \<open>go\<close> and appends a transition to the table of the last state
  (\<open>A\<close>, which the loop variables still hold). \<^verbatim>\<open>add_wildcard\<close> returns after the same
  warning.
\<close>

theorem connect_states_unknown_state_mutates:
  "case script [Add_state ''A'' ''a.hkx'' False False (EvStr ''null'') (EvStr ''null'')] of
     None \<Rightarrow> False
   | Some (bf, w) \<Rightarrow>
       (case connect_states ''B'' ''A'' ''go'' bf w of
          (r, bf', w') \<Rightarrow>
            r = Inr ()
            \<and> ''connect_states error, state1 B doesnt exist'' \<in> set (log_lines w')
            \<and> event_name_list w = [] \<and> event_name_list w' = [''go'']
            \<and> data w ! 4 = HkbStateMachineTransitionInfoArray ''#0056'' 0 ''0'' []
            \<and> data w' ! 4 = HkbStateMachineTransitionInfoArray ''#0056'' 1 ''1''
                 [\<lparr>transition_ref = ''#0055'', condition = ''null'', eventId = ''0'',
                   toStateId = ''0'', flags = ''FLAG_DISABLE_CONDITION''\<rparr>])"
  by code_simp

text \<open>
  C8. \<^verbatim>\<open>add_clip_trigger\<close> with a name that no state has logs a warning and goes on with
  the last state: with one clip state \<open>A\<close>, \<^verbatim>\<open>add_clip_trigger("B", "ev")\<close> returns
  normally, creates a trigger table for \<open>A\<close>, registers \<open>ev\<close> and binds the generator of
  \<open>A\<close> to the table.
\<close>

theorem add_clip_trigger_unknown_state_mutates:
  "case script [Add_state ''A'' ''a.hkx'' False False (EvStr ''null'') (EvStr ''null'')] of
     None \<Rightarrow> False
   | Some (bf, w) \<Rightarrow>
       (case add_clip_trigger ''B'' ''ev'' False (PyInt 0) bf w of
          (r, bf', w') \<Rightarrow>
            r = Inr ()
            \<and> ''add_clip_trigger error, state B doesnt exist'' \<in> set (log_lines w')
            \<and> event_name_list w = [] \<and> event_name_list w' = [''ev'']
            \<and> length (data w) = 7
            \<and> data w' ! 7 = HkbClipTriggerArray ''#0059'' 1 ''1''
                 [Some \<lparr>localTime = PyInt 0, event_id = ''0'',
                        relativeToEndOfClip = ''false''\<rparr>]
            \<and> data w' ! 5 = HkbClipGenerator ''#0057'' ''A'' ''a.hkx'' ''#0059'' ''MODE_SINGLE_PLAY'')"
  by code_simp

section \<open>Two instances\<close>

text \<open>
  C5. The state list, the event name list and the data section are class attributes, so a
  second instance reads what the first one wrote: after \<^verbatim>\<open>add_state("A", ...)\<close> on the
  first instance the list that the second instance reads holds \<open>A\<close> and the shared data
  section has three more objects, and \<^verbatim>\<open>add_state("A", ...)\<close> on the second instance is
  refused as a duplicate.
\<close>

theorem second_instance_shares_class_state:
  "case new_BehaviorFile init_world of
     (Inl e, w1) \<Rightarrow> False
   | (Inr bf1, w1) \<Rightarrow>
       (case new_BehaviorFile w1 of
          (Inl e, w2) \<Rightarrow> False
        | (Inr bf2, w2) \<Rightarrow>
            (case add_state ''A'' ''a.hkx'' False False (EvStr ''null'') (EvStr ''null'') bf1 w2 of
               (r, bf1', w3) \<Rightarrow>
                 r = Inr ()
                 \<and> list_of_states w2 = [] \<and> list_of_states w3 = [(10, 9, 8, ''A'')]
                 \<and> length (data w2) = 8 \<and> length (data w3) = 11
                 \<and> (case add_state ''A'' ''b.hkx'' False False (EvStr ''null'') (EvStr ''null'')
                            bf2 w3 of
                       (r', bf2', w4) \<Rightarrow>
                         r' = Inr () \<and> bf2' = bf2 \<and> nStates bf2' = 0
                         \<and> list_of_states w4 = list_of_states w3
                         \<and> last (log_lines w4)
                             = ''a state with name A already in project, chose a unique name'')))"
  by code_simp

section \<open>Later builds in one process\<close>

text \<open>
  C10. The list of registered names is a class attribute, while every instance has an event
  name table of its own. A second instance, created after the first one registered
  \<open>go\<close>, registers \<open>x\<close> as its first event: the id returned is 1, not 0, and \<open>x\<close> is at
  index 0 of the instance's empty-so-far \<^verbatim>\<open>eventNames\<close>, so the id is not the index.
\<close>

theorem second_instance_event_id_not_index:
  "case process
      [Create,
       Invoke 0 (Build (Add_state ''A'' ''a.hkx'' False False (EvStr ''go'') (EvStr ''null''))),
       Create] of
     (bfs, w) \<Rightarrow>
       (case hkbBehaviorGraphStringData (bfs ! 1) of
          None \<Rightarrow> False
        | Some sd \<Rightarrow>
            (case getOrCreateEventID sd (bfs ! 1) ''x'' w of
               (r, w') \<Rightarrow>
                 eventNames (data w ! sd) = [] \<and> r = Inr 1
                 \<and> eventNames (data w' ! sd) = [''x'']
                 \<and> event_name_list w' = [''go'', ''x'']))"
  by code_simp

text \<open>
  C7. The data section is a class attribute and \<^verbatim>\<open>export\<close> writes all of it. When a second
  instance is created and exported after the export of a first one (what the GUI does at
  every export), the document holds the objects of both builds: the tags are not
  distinct, two objects have the tag named by \<^verbatim>\<open>toplevelobject\<close>, and the references of
  the second behavior graph (\<^verbatim>\<open>#0056\<close> and \<^verbatim>\<open>#0054\<close>) are each the tag of two objects.
\<close>

theorem second_export_repeats_tags:
  "case process [Create, Invoke 0 Export, Create] of
     (bfs, w) \<Rightarrow>
       (case export (bfs ! 1) w of
          (Inl e, bf', w') \<Rightarrow> False
        | (Inr doc, bf', w') \<Rightarrow>
            \<not> distinct (map tag (hksection doc))
            \<and> length (filter (\<lambda>ob. tag ob = toplevelobject doc) (hksection doc)) = 2
            \<and> refs (last (butlast (hksection doc))) = [''#0056'', ''#0054'']
            \<and> length (filter (\<lambda>ob. tag ob = ''#0056'') (hksection doc)) = 2
            \<and> length (filter (\<lambda>ob. tag ob = ''#0054'') (hksection doc)) = 2)"
  by code_simp

text \<open>
  C6. The state list is a class attribute too. A second instance, built with one
  \<^verbatim>\<open>add_state\<close> after a first build with one state was exported, gets a state machine
  that counts two states and lists three tags. And on a single instance a
  \<^verbatim>\<open>connect_states\<close> call that names an unknown state, which is no successful call, still
  adds a transition: with one state \<open>A\<close> and no successful \<^verbatim>\<open>connect_states\<close>, the exported
  transition table of \<open>A\<close> counts one element.
\<close>

theorem counts_exceed_calls:
  "(case process
      [Create,
       Invoke 0 (Build (Add_state ''A'' ''a.hkx'' False False (EvStr ''null'') (EvStr ''null''))),
       Invoke 0 Export,
       Create,
       Invoke 1 (Build (Add_state ''B'' ''b.hkx'' False False (EvStr ''null'') (EvStr ''null'')))] of
     (bfs, w) \<Rightarrow>
       (case export (bfs ! 1) w of
          (Inl e, bf', w') \<Rightarrow> False
        | (Inr doc, bf', w') \<Rightarrow>
            (case hkbStateMachineObj bf' of
               None \<Rightarrow> False
             | Some sm \<Rightarrow>
                 class_of (hksection doc ! sm) = ''hkbStateMachine''
                 \<and> numelements (hksection doc ! sm) = ''2''
                 \<and> length (states (hksection doc ! sm)) = 3)))
   \<and> (case script [Add_state ''A'' ''a.hkx'' False False (EvStr ''null'') (EvStr ''null''),
                    Connect_states ''B'' ''A'' ''go''] of
         None \<Rightarrow> False
       | Some (bf, w) \<Rightarrow>
           (case export bf w of
              (Inl e, bf', w') \<Rightarrow> False
            | (Inr doc, bf', w') \<Rightarrow>
                map entry_name (list_of_states w') = [''A'']
                \<and> (case lookup (hksection doc)
                           (transitions_ref (hksection doc ! entry_state (hd (list_of_states w')))) of
                      None \<Rightarrow> False
                    | Some tb \<Rightarrow>
                        class_of tb = ''hkbStateMachineTransitionInfoArray''
                        \<and> numelements tb = ''1'' \<and> length (transitions tb) = 1)))"
  by code_simp

end
